theory Spec2Isabelle
  imports Complex_Main "HOL-Library.Sublist" "HOL-Library.Word"
begin

section \<open>Python values shared by the modules\<close>

text \<open>
  Exceptions are values. \<open>KeyboardInterrupt\<close> and \<open>CancelledError\<close> derive from
  \<open>BaseException\<close> only; \<open>ConnectionClosedError\<close> (of the websockets package) and every
  other error derive from \<open>Exception\<close>. \<open>ConnectionClosedError\<close> carries \<open>str(e)\<close>.
\<close>

datatype exn =
    KeyboardInterrupt
  | CancelledError
  | ConnectionClosedError string
  | OtherException string

fun is_Exception :: "exn \<Rightarrow> bool" where
  "is_Exception KeyboardInterrupt = False"
| "is_Exception CancelledError = False"
| "is_Exception (ConnectionClosedError msg) = True"
| "is_Exception (OtherException msg) = True"

text \<open>Truthiness of an optional string (\<open>if not api_key\<close>, \<open>if self.agent_name\<close>):
  \<open>None\<close> and the empty string are false.\<close>

fun str_truthy :: "string option \<Rightarrow> bool" where
  "str_truthy None = False"
| "str_truthy (Some s) = (s \<noteq> [])"

type_synonym bytes = "8 word list"

section \<open>tools/SendMessageAsync.py\<close>

record agent =
  name :: string

record agency =
  agents :: "agent list"

record SendMessageAsync =
  message :: string
  agency_name :: string
  agent_name :: "string option"

text \<open>The one effect of \<open>send_message\<close>: the call of \<open>agency.get_completion\<close> with the
  message and the recipient (\<open>None\<close> is the agency's default agent).\<close>

datatype tool_action = GetCompletion string "agent option"

text \<open>\<open>', '.join(names)\<close>\<close>

fun join :: "string \<Rightarrow> string list \<Rightarrow> string" where
  "join sep [] = []"
| "join sep [x] = x"
| "join sep (x # y # ys) = x @ sep @ join sep (y # ys)"

text \<open>A name between apostrophes, as the f-strings write \<open>'{self.agency_name}'\<close>.\<close>

definition quoted :: "string \<Rightarrow> string" where
  "quoted s = CHR 0x27 # s @ [CHR 0x27]"

text \<open>
  Lines 56 to 61 of \<open>send_message\<close>: the call of \<open>get_completion\<close> in a thread, then
  the status string. \<open>completion\<close> is what \<open>get_completion\<close> does when it is called: it
  returns (\<open>None\<close>) or raises. The result is the list of effects and the returned string
  (\<open>Inr\<close>) or the exception that leaves the method (\<open>Inl\<close>).
\<close>

definition dispatch_message ::
  "exn option \<Rightarrow> string \<Rightarrow> agent option \<Rightarrow> tool_action list \<times> (exn + string)"
where
  "dispatch_message completion msg recipient_agent =
     (case completion of
        Some e \<Rightarrow> ([GetCompletion msg recipient_agent], Inl e)
      | None \<Rightarrow>
          ([GetCompletion msg recipient_agent],
           Inr ''Message sent asynchronously. Use 'GetResponse' to check status.''))"

text \<open>
  \<open>send_message\<close>. \<open>AGENCIES\<close> (module \<open>voice_assistant.agencies\<close>) is a parameter, a
  dictionary from agency names to agencies; an \<open>Agency\<close> and an \<open>Agent\<close> object are truthy,
  so \<open>if agency\<close> and \<open>if not recipient_agent\<close> test for \<open>None\<close>.
\<close>

definition send_message ::
  "(string \<rightharpoonup> agency) \<Rightarrow> exn option \<Rightarrow> SendMessageAsync \<Rightarrow> tool_action list \<times> (exn + string)"
where
  "send_message AGENCIES completion self =
     (case AGENCIES (agency_name self) of
        Some agency \<Rightarrow>
          (if str_truthy (agent_name self) then
             (case find (\<lambda>agent. Some (name agent) = agent_name self) (agents agency) of
                None \<Rightarrow>
                  ([], Inr (''Agent '' @ quoted (case agent_name self of Some n \<Rightarrow> n | None \<Rightarrow> ''None'')
                            @ '' not found in agency '' @ quoted (agency_name self)
                            @ ''. Available agents: ''
                            @ join '', '' (map name (agents agency))))
              | Some recipient_agent \<Rightarrow>
                  dispatch_message completion (message self) (Some recipient_agent))
           else dispatch_message completion (message self) None)
      | None \<Rightarrow> ([], Inr (''Agency '' @ quoted (agency_name self) @ '' not found'')))"

section \<open>main.py\<close>

subsection \<open>Constants of the modules main.py imports\<close>

text \<open>
  \<open>SESSION_INSTRUCTIONS\<close>, \<open>SILENCE_THRESHOLD\<close>, \<open>PREFIX_PADDING_MS\<close>,
  \<open>SILENCE_DURATION_MS\<close> (module \<open>voice_assistant.config\<close>) and \<open>TOOL_SCHEMAS\<close> (module
  \<open>voice_assistant.tools\<close>) are parameters: main.py copies them into the session update
  and computes nothing with them.
\<close>

record tool_schema =
  schema_name :: string
  schema_description :: string
  schema_parameters :: string

record config =
  SESSION_INSTRUCTIONS :: string
  SILENCE_THRESHOLD :: real
  PREFIX_PADDING_MS :: int
  SILENCE_DURATION_MS :: int
  TOOL_SCHEMAS :: "tool_schema list"

subsection \<open>Outbound events\<close>

record turn_detection =
  td_type :: string
  threshold :: real
  prefix_padding_ms :: int
  silence_duration_ms :: int

record session =
  modalities :: "string list"
  instructions :: string
  voice :: string
  input_audio_format :: string
  output_audio_format :: string
  turn_detection :: turn_detection
  tools :: "tool_schema list"

text \<open>
  The JSON objects written to the websocket, by their \<open>type\<close>: \<open>session.update\<close> and
  \<open>input_audio_buffer.append\<close> are the two main.py sends. The specification's
  function-call-result (call id, result text) and response-cancel belong to the receive
  task.
\<close>

datatype outbound =
    SessionUpdate session
  | InputAudioBufferAppend string
  | FunctionCallResult string string
  | ResponseCancel

definition session_update :: "config \<Rightarrow> outbound" where
  "session_update cfg =
     SessionUpdate \<lparr>
       modalities = [''text'', ''audio''],
       instructions = SESSION_INSTRUCTIONS cfg,
       voice = ''shimmer'',
       input_audio_format = ''pcm16'',
       output_audio_format = ''pcm16'',
       turn_detection = \<lparr>
         td_type = ''server_vad'',
         threshold = SILENCE_THRESHOLD cfg,
         prefix_padding_ms = PREFIX_PADDING_MS cfg,
         silence_duration_ms = SILENCE_DURATION_MS cfg \<rparr>,
       tools = TOOL_SCHEMAS cfg \<rparr>"

subsection \<open>The audio encoder and decoder\<close>

text \<open>
  Modelled from the spec: \<open>base64_encode_audio\<close> (module \<open>voice_assistant.utils\<close>) and
  its inverse are not among the sources. The specification calls the pair a stateless,
  pure conversion between raw PCM bytes and a base64-style text-safe encoding, so the
  model is base64 with the standard alphabet and \<open>=\<close> padding: three bytes become four
  characters of six bits each.
\<close>

definition b64_alphabet :: string where
  "b64_alphabet = ''ABCDEFGHIJKLMNOPQRSTUVWXYZabcdefghijklmnopqrstuvwxyz0123456789+/''"

definition b64_char :: "nat \<Rightarrow> char" where
  "b64_char n = b64_alphabet ! n"

fun index_of :: "'a \<Rightarrow> 'a list \<Rightarrow> nat option" where
  "index_of x [] = None"
| "index_of x (y # ys) = (if x = y then Some 0 else map_option Suc (index_of x ys))"

definition b64_index :: "char \<Rightarrow> nat option" where
  "b64_index c = index_of c b64_alphabet"

fun b64encode :: "bytes \<Rightarrow> string" where
  "b64encode [] = []"
| "b64encode [a] =
     [b64_char (unat a div 4), b64_char (unat a mod 4 * 16), CHR ''='', CHR ''='']"
| "b64encode [a, b] =
     [b64_char (unat a div 4), b64_char (unat a mod 4 * 16 + unat b div 16),
      b64_char (unat b mod 16 * 4), CHR ''='']"
| "b64encode (a # b # c # rest) =
     [b64_char (unat a div 4), b64_char (unat a mod 4 * 16 + unat b div 16),
      b64_char (unat b mod 16 * 4 + unat c div 64), b64_char (unat c mod 64)]
     @ b64encode rest"

text \<open>
  The decoder reads four characters at a time. Padding is accepted in the last group
  only, and a group whose unused low bits are not zero is refused (\<open>None\<close>), as is every
  character outside the alphabet and every length that is not a multiple of four.
\<close>

definition b64decode_last :: "char \<Rightarrow> char \<Rightarrow> char \<Rightarrow> char \<Rightarrow> bytes option" where
  "b64decode_last c1 c2 c3 c4 =
     (case (b64_index c1, b64_index c2) of
        (Some i, Some j) \<Rightarrow>
          (if c3 = CHR ''='' \<and> c4 = CHR ''='' then
             (if j mod 16 = 0 then Some [word_of_nat (i * 4 + j div 16)] else None)
           else
             (case b64_index c3 of
                Some k \<Rightarrow>
                  (if c4 = CHR ''='' then
                     (if k mod 4 = 0
                      then Some [word_of_nat (i * 4 + j div 16),
                                 word_of_nat (j mod 16 * 16 + k div 4)]
                      else None)
                   else
                     (case b64_index c4 of
                        Some l \<Rightarrow>
                          Some [word_of_nat (i * 4 + j div 16),
                                word_of_nat (j mod 16 * 16 + k div 4),
                                word_of_nat (k mod 4 * 64 + l)]
                      | None \<Rightarrow> None))
              | None \<Rightarrow> None))
      | _ \<Rightarrow> None)"

fun b64decode :: "string \<Rightarrow> bytes option" where
  "b64decode [] = Some []"
| "b64decode (c1 # c2 # c3 # c4 # rest) =
     (if rest = [] then b64decode_last c1 c2 c3 c4
      else
        (case (b64_index c1, b64_index c2, b64_index c3, b64_index c4) of
           (Some i, Some j, Some k, Some l) \<Rightarrow>
             (case b64decode rest of
                Some bs \<Rightarrow>
                  Some (word_of_nat (i * 4 + j div 16)
                        # word_of_nat (j mod 16 * 16 + k div 4)
                        # word_of_nat (k mod 4 * 64 + l) # bs)
              | None \<Rightarrow> None)
         | _ \<Rightarrow> None))"
| "b64decode _ = None"

definition base64_encode_audio :: "bytes \<Rightarrow> string" where
  "base64_encode_audio audio_bytes = b64encode audio_bytes"

definition base64_decode_audio :: "string \<Rightarrow> bytes option" where
  "base64_decode_audio text = b64decode text"

subsection \<open>Objects, effects and the environment\<close>

text \<open>
  Modelled from the spec: the classes \<open>AsyncMicrophone\<close> (module
  \<open>voice_assistant.microphone\<close>) and the coroutine \<open>process_ws_messages\<close> (module
  \<open>voice_assistant.websocket_handler\<close>) are not among the sources. What a new
  microphone and a new receive task hold is taken from the specification's data model:
  a capture buffer of frames and the emitting flag; the turn state and the function-call
  arguments accumulated by call id (with the function's name).
\<close>

datatype turn_state = Idle | UserSpeaking | AssistantResponding

record microphone =
  capture_buffer :: "bytes list"
  emitting :: bool

record receiver =
  turn :: turn_state
  call_arguments :: "(string \<times> string \<times> string) list"

definition AsyncMicrophone :: microphone where
  "AsyncMicrophone = \<lparr> capture_buffer = [], emitting = False \<rparr>"

definition process_ws_messages_start :: receiver where
  "process_ws_messages_start = \<lparr> turn = Idle, call_arguments = [] \<rparr>"

text \<open>
  Objects are named by numbers, handed out in the order of creation. An action is one
  call main.py makes that reaches out of the function; the trace of a run holds the
  calls in the order in which they are made, a call that raises included (a
  constructor that raises makes no object and leaves no action), and the environment
  says what each call raised. \<open>Connect key r\<close> is the call of
  \<open>websockets.connect\<close> with the bearer key, \<open>r\<close> the connection it opened, if any.
  \<open>Send ws ev\<close> is the call \<open>websocket.send(json.dumps(ev))\<close>. \<open>Sleep\<close> counts
  milliseconds. \<open>MicGetAudioData m r\<close> is the drain of microphone \<open>m\<close> and what it
  returned.
\<close>

datatype action =
    Print string
  | LogError string
  | LogWarning string
  | LogInfo string
  | LogDebug string
  | LogException string
  | LogWsEvent outbound
  | NewMicrophone nat microphone
  | NewVisualInterface nat
  | Connect string "nat option"
  | Send nat outbound
  | CreateWsTask nat nat nat receiver
  | CreateVisualTask nat
  | MicStartRecording nat
  | Sleep nat
  | MicGetAudioData nat "bytes option"
  | VisProcessAudioData nat bytes
  | ExitEventSet
  | MicStopRecording nat
  | MicClose nat
  | WsClose nat
  | VisSetActive nat bool
  | AwaitWsTask
  | AwaitVisualTask
  | PygameQuit

text \<open>
  The environment of one pass of the pacing loop (lines 93 to 108): whether the sleep is
  interrupted, the microphone's \<open>is_receiving\<close> flag, what \<open>get_audio_data\<close> returns,
  and whether the send and the visual update raise.
\<close>

record tick =
  sleep_raises :: "exn option"
  is_receiving :: bool
  get_audio_data :: "bytes option"
  send_raises :: "exn option"
  process_audio_data_raises :: "exn option"

text \<open>
  The environment of one pass of the \<open>while True\<close> loop (lines 37 to 149): the value of
  \<open>OPENAI_API_KEY\<close>, whether each constructor, the connect, the first send and
  \<open>start_recording\<close> raise, the passes of the pacing loop that the environment
  determines, what each call of the \<open>finally\<close> block of lines 115 to 120 raises, what
  awaiting the two tasks raises, what the close at the exit of \<open>async with\<close> raises,
  what the sleep of line 136 raises, and what each call of lines 145 to 148 raises. An
  \<open>await\<close> raises \<open>CancelledError\<close> when the task is cancelled while it waits there.
  \<open>exit_event.set()\<close>, the calls of the logger and \<open>pygame.quit()\<close> return.
\<close>

record attempt =
  api_key :: "string option"
  microphone_raises :: "exn option"
  visual_interface_raises :: "exn option"
  connect_raises :: "exn option"
  session_send_raises :: "exn option"
  start_recording_raises :: "exn option"
  ticks :: "tick list"
  stop_recording_raises :: "exn option"
  close_raises :: "exn option"
  websocket_close_raises :: "exn option"
  set_active_raises :: "exn option"
  ws_task_raises :: "exn option"
  visual_task_raises :: "exn option"
  aexit_raises :: "exn option"
  reconnect_sleep_raises :: "exn option"
  final_stop_recording_raises :: "exn option"
  final_close_raises :: "exn option"
  final_websocket_close_raises :: "exn option"

text \<open>
  How a block ends: it falls through to the next statement, leaves the loop (\<open>break\<close>),
  starts the next pass (\<open>continue\<close>), returns, raises, or is still running when the
  environment's script ends.
\<close>

datatype ctrl = Fallthrough | Break | Continue | Return | Raise exn | Running

text \<open>
  The local variables of \<open>realtime_api\<close> that outlive one pass of the loop (the outer
  \<open>finally\<close> asks \<open>locals()\<close> for two of them), and the number of the next object.
\<close>

record frame =
  mic :: "nat option"
  visual_interface :: "nat option"
  websocket :: "nat option"
  fresh :: nat

definition new_frame :: frame where
  "new_frame = \<lparr> mic = None, visual_interface = None, websocket = None, fresh = 0 \<rparr>"

text \<open>
  Statements that are calls, one after the other, each with what it raises: a call that
  raises is made, and the calls after it are not.
\<close>

fun calls :: "(action \<times> exn option) list \<Rightarrow> action list \<times> exn option" where
  "calls [] = ([], None)"
| "calls ((x, None) # cs) = (case calls cs of (t, r) \<Rightarrow> (x # t, r))"
| "calls ((x, Some e) # cs) = ([x], Some e)"

text \<open>
  How a statement ends once its \<open>finally\<close> block (or the exit of its \<open>async with\<close>) has
  run: with the exception the block raised, if any, in place of what was pending; as it
  would have ended otherwise.
\<close>

fun after_finally :: "ctrl \<Rightarrow> exn option \<Rightarrow> ctrl" where
  "after_finally c None = c"
| "after_finally c (Some e) = Raise e"

subsection \<open>The pacing loop (lines 92 to 108)\<close>

definition audio_event :: "string \<Rightarrow> outbound" where
  "audio_event base64_audio = InputAudioBufferAppend base64_audio"

definition pacing_step :: "nat \<Rightarrow> nat \<Rightarrow> nat \<Rightarrow> tick \<Rightarrow> action list \<times> exn option" where
  "pacing_step ws m vi t =
     (case sleep_raises t of
        Some e \<Rightarrow> ([Sleep 10], Some e)
      | None \<Rightarrow>
          (if \<not> is_receiving t then
             (case get_audio_data t of
                None \<Rightarrow> ([Sleep 10, MicGetAudioData m None], None)
              | Some audio_data \<Rightarrow>
                  (if audio_data \<noteq> [] then
                     (if base64_encode_audio audio_data \<noteq> [] then
                        (case send_raises t of
                           Some e \<Rightarrow>
                             ([Sleep 10, MicGetAudioData m (Some audio_data),
                               LogWsEvent (audio_event (base64_encode_audio audio_data)),
                               Send ws (audio_event (base64_encode_audio audio_data))], Some e)
                         | None \<Rightarrow>
                             ([Sleep 10, MicGetAudioData m (Some audio_data),
                               LogWsEvent (audio_event (base64_encode_audio audio_data)),
                               Send ws (audio_event (base64_encode_audio audio_data)),
                               VisProcessAudioData vi audio_data],
                              process_audio_data_raises t))
                      else
                        ([Sleep 10, MicGetAudioData m (Some audio_data),
                          LogDebug ''No audio data to send''], None))
                   else ([Sleep 10, MicGetAudioData m (Some audio_data)], None)))
           else ([Sleep 10], None)))"

text \<open>
  \<open>while not exit_event.is_set()\<close>. The event is local to the pass and set in the
  \<open>finally\<close> block only, so the loop is entered with the event clear and ends by an
  exception; when the script of passes ends first, the loop is still running.
\<close>

fun pacing_loop :: "bool \<Rightarrow> nat \<Rightarrow> nat \<Rightarrow> nat \<Rightarrow> tick list \<Rightarrow> action list \<times> ctrl" where
  "pacing_loop exit_event ws m vi [] = ([], if exit_event then Fallthrough else Running)"
| "pacing_loop exit_event ws m vi (t # ts) =
     (if exit_event then ([], Fallthrough)
      else
        (case pacing_step ws m vi t of
           (as, Some e) \<Rightarrow> (as, Raise e)
         | (as, None) \<Rightarrow>
             (case pacing_loop exit_event ws m vi ts of (bs, c) \<Rightarrow> (as @ bs, c))))"

subsection \<open>One session (lines 55 to 127)\<close>

text \<open>\<open>str(e)\<close>, as the log messages format it.\<close>

fun str_exn :: "exn \<Rightarrow> string" where
  "str_exn KeyboardInterrupt = []"
| "str_exn CancelledError = []"
| "str_exn (ConnectionClosedError msg) = msg"
| "str_exn (OtherException msg) = msg"

text \<open>
  The \<open>finally\<close> block of lines 115 to 120: five calls, the fourth an \<open>await\<close>. The
  block ends at the first of them that raises.
\<close>

definition inner_finally :: "nat \<Rightarrow> nat \<Rightarrow> nat \<Rightarrow> attempt \<Rightarrow> action list \<times> exn option" where
  "inner_finally ws m vi a =
     calls [(ExitEventSet, None),
            (MicStopRecording m, stop_recording_raises a),
            (MicClose m, close_raises a),
            (WsClose ws, websocket_close_raises a),
            (VisSetActive vi False, set_active_raises a)]"

text \<open>
  The \<open>try\<close> statement of lines 91 to 120: the pacing loop, the handler for
  \<open>KeyboardInterrupt\<close>, the handler for every \<open>Exception\<close>, and the \<open>finally\<close> block,
  which also runs when an exception that neither handler takes passes through. An
  exception that the \<open>finally\<close> block raises leaves the statement.
\<close>

definition inner_try :: "nat \<Rightarrow> nat \<Rightarrow> nat \<Rightarrow> attempt \<Rightarrow> action list \<times> ctrl" where
  "inner_try ws m vi a =
     (case pacing_loop False ws m vi (ticks a) of
        (tp, Running) \<Rightarrow> (tp, Running)
      | (tp, Raise e) \<Rightarrow>
          (case inner_finally ws m vi a of
             (tf, r) \<Rightarrow>
               (if e = KeyboardInterrupt then
                  (tp @ [LogInfo ''Keyboard interrupt received. Closing the connection.''] @ tf,
                   after_finally Fallthrough r)
                else if is_Exception e then
                  (tp @ [LogException
                           (''An unexpected error occurred in the main loop: '' @ str_exn e)] @ tf,
                   after_finally Fallthrough r)
                else (tp @ tf, after_finally (Raise e) r)))
      | (tp, c) \<Rightarrow>
          (case inner_finally ws m vi a of (tf, r) \<Rightarrow> (tp @ tf, after_finally c r)))"

text \<open>
  Lines 123 to 127: the two tasks are awaited; an \<open>Exception\<close> either raises is logged,
  and the second await is skipped when the first raises.
\<close>

definition await_tasks :: "attempt \<Rightarrow> action list \<times> ctrl" where
  "await_tasks a =
     (case ws_task_raises a of
        Some e \<Rightarrow>
          (if is_Exception e then
             ([AwaitWsTask,
               LogException (''Error in WebSocket processing task: '' @ str_exn e)], Fallthrough)
           else ([AwaitWsTask], Raise e))
      | None \<Rightarrow>
          (case visual_task_raises a of
             Some e \<Rightarrow>
               (if is_Exception e then
                  ([AwaitWsTask, AwaitVisualTask,
                    LogException (''Error in WebSocket processing task: '' @ str_exn e)],
                   Fallthrough)
                else ([AwaitWsTask, AwaitVisualTask], Raise e))
           | None \<Rightarrow> ([AwaitWsTask, AwaitVisualTask], Fallthrough)))"

text \<open>The body of the \<open>async with\<close> statement, lines 56 to 127.\<close>

definition session_body :: "config \<Rightarrow> nat \<Rightarrow> nat \<Rightarrow> nat \<Rightarrow> attempt \<Rightarrow> action list \<times> ctrl" where
  "session_body cfg ws m vi a =
     (case session_send_raises a of
        Some e \<Rightarrow>
          ([LogInfo ''Connected to the server.'', LogWsEvent (session_update cfg),
            Send ws (session_update cfg)], Raise e)
      | None \<Rightarrow>
          (case start_recording_raises a of
             Some e \<Rightarrow>
               ([LogInfo ''Connected to the server.'', LogWsEvent (session_update cfg),
                 Send ws (session_update cfg),
                 CreateWsTask ws m vi process_ws_messages_start, CreateVisualTask vi,
                 LogInfo ''Conversation started. Speak freely, and the assistant will respond.'',
                 MicStartRecording m], Raise e)
           | None \<Rightarrow>
               (case inner_try ws m vi a of
                  (tp, Fallthrough) \<Rightarrow>
                    (case await_tasks a of
                       (tw, c) \<Rightarrow>
                         ([LogInfo ''Connected to the server.'', LogWsEvent (session_update cfg),
                           Send ws (session_update cfg),
                           CreateWsTask ws m vi process_ws_messages_start, CreateVisualTask vi,
                           LogInfo ''Conversation started. Speak freely, and the assistant will respond.'',
                           MicStartRecording m,
                           LogInfo ''Recording started. Listening for speech...'']
                          @ tp @ tw, c))
                | (tp, c) \<Rightarrow>
                    ([LogInfo ''Connected to the server.'', LogWsEvent (session_update cfg),
                      Send ws (session_update cfg),
                      CreateWsTask ws m vi process_ws_messages_start, CreateVisualTask vi,
                      LogInfo ''Conversation started. Speak freely, and the assistant will respond.'',
                      MicStartRecording m,
                      LogInfo ''Recording started. Listening for speech...'']
                     @ tp, c))))"

subsection \<open>One pass of the reconnect loop (lines 38 to 149)\<close>

text \<open>
  The \<open>async with\<close> statement of line 55 for an opened connection: its body, and the
  close of the connection that is awaited when the body is left, however it is left.
\<close>

definition with_websocket :: "config \<Rightarrow> nat \<Rightarrow> nat \<Rightarrow> nat \<Rightarrow> attempt \<Rightarrow> action list \<times> ctrl" where
  "with_websocket cfg ws m vi a =
     (case session_body cfg ws m vi a of
        (tb, Running) \<Rightarrow> (tb, Running)
      | (tb, c) \<Rightarrow> (tb @ [WsClose ws], after_finally c (aexit_raises a)))"

text \<open>
  The \<open>try\<close> block, lines 39 to 130. A constructor or a connect that raises binds no
  variable, so the frame keeps what an earlier pass bound. Falling out of the \<open>async
  with\<close> statement reaches the \<open>break\<close> of line 130.
\<close>

definition try_block :: "config \<Rightarrow> frame \<Rightarrow> attempt \<Rightarrow> action list \<times> frame \<times> ctrl" where
  "try_block cfg f a =
     (case api_key a of
        None \<Rightarrow> ([LogError ''Please set the OPENAI_API_KEY in your .env file.''], f, Return)
      | Some key \<Rightarrow>
          (if key = [] then
             ([LogError ''Please set the OPENAI_API_KEY in your .env file.''], f, Return)
           else
             (case microphone_raises a of
                Some e \<Rightarrow> ([], f, Raise e)
              | None \<Rightarrow>
                  (case visual_interface_raises a of
                     Some e \<Rightarrow>
                       ([NewMicrophone (fresh f) AsyncMicrophone],
                        f\<lparr>mic := Some (fresh f), fresh := fresh f + 1\<rparr>, Raise e)
                   | None \<Rightarrow>
                       (case connect_raises a of
                          Some e \<Rightarrow>
                            ([NewMicrophone (fresh f) AsyncMicrophone,
                              NewVisualInterface (fresh f + 1), Connect key None],
                             f\<lparr>mic := Some (fresh f), visual_interface := Some (fresh f + 1),
                               fresh := fresh f + 2\<rparr>, Raise e)
                        | None \<Rightarrow>
                            (case with_websocket cfg (fresh f + 2) (fresh f) (fresh f + 1) a of
                               (tb, c) \<Rightarrow>
                                 ([NewMicrophone (fresh f) AsyncMicrophone,
                                   NewVisualInterface (fresh f + 1),
                                   Connect key (Some (fresh f + 2))] @ tb,
                                  f\<lparr>mic := Some (fresh f),
                                    visual_interface := Some (fresh f + 1),
                                    websocket := Some (fresh f + 2), fresh := fresh f + 3\<rparr>,
                                  if c = Fallthrough then Break else c)))))))"

text \<open>
  The \<open>except\<close> clauses, lines 131 to 142. \<open>sublist\<close> is Python's \<open>in\<close> on strings.
  An exception that is no \<open>Exception\<close> passes through, and so does one that the sleep
  of line 136 raises.
\<close>

definition except_clauses :: "exn \<Rightarrow> attempt \<Rightarrow> action list \<times> ctrl" where
  "except_clauses e a =
     (case e of
        ConnectionClosedError msg \<Rightarrow>
          (if sublist ''keepalive ping timeout'' msg then
             ([LogWarning ''WebSocket connection lost due to keepalive ping timeout. Reconnecting...'',
               Sleep 1000],
              case reconnect_sleep_raises a of None \<Rightarrow> Continue | Some e' \<Rightarrow> Raise e')
           else ([LogException ''WebSocket connection closed unexpectedly.''], Break))
      | OtherException msg \<Rightarrow>
          ([LogException (''An unexpected error occurred: '' @ msg)], Break)
      | _ \<Rightarrow> ([], Raise e))"

text \<open>
  The \<open>finally\<close> block, lines 143 to 149: the calls on the variables that are bound,
  the third an \<open>await\<close>, then \<open>pygame.quit()\<close>. The block ends at the first call that
  raises.
\<close>

definition outer_finally :: "frame \<Rightarrow> attempt \<Rightarrow> action list \<times> exn option" where
  "outer_finally f a =
     calls
       ((case mic f of
           None \<Rightarrow> []
         | Some m \<Rightarrow> [(MicStopRecording m, final_stop_recording_raises a),
                      (MicClose m, final_close_raises a)])
        @ (case websocket f of
             None \<Rightarrow> []
           | Some ws \<Rightarrow> [(WsClose ws, final_websocket_close_raises a)])
        @ [(PygameQuit, None)])"

text \<open>
  One pass of the \<open>while True\<close> loop: the \<open>try\<close> block, the \<open>except\<close> clauses for an
  exception that leaves it, and the \<open>finally\<close> block, whose exception, if it raises,
  replaces the \<open>break\<close>, \<open>continue\<close>, \<open>return\<close> or exception that was pending.
\<close>

definition loop_pass :: "config \<Rightarrow> frame \<Rightarrow> attempt \<Rightarrow> action list \<times> frame \<times> ctrl" where
  "loop_pass cfg f a =
     (case try_block cfg f a of
        (tb, f', Running) \<Rightarrow> (tb, f', Running)
      | (tb, f', Raise e) \<Rightarrow>
          (case except_clauses e a of
             (th, c) \<Rightarrow>
               (case outer_finally f' a of (tf, r) \<Rightarrow> (tb @ th @ tf, f', after_finally c r)))
      | (tb, f', c) \<Rightarrow>
          (case outer_finally f' a of (tf, r) \<Rightarrow> (tb @ tf, f', after_finally c r)))"

subsection \<open>The reconnect loop and the entry point\<close>

text \<open>
  \<open>while True\<close>: each pass takes the next environment of the script. The loop is still
  running when a pass is, and when the script ends with a reconnect pending.
\<close>

fun reconnect_loop :: "config \<Rightarrow> frame \<Rightarrow> attempt list \<Rightarrow> action list \<times> ctrl" where
  "reconnect_loop cfg f [] = ([], Running)"
| "reconnect_loop cfg f (a # as) =
     (case loop_pass cfg f a of
        (t, f', Continue) \<Rightarrow>
          (case reconnect_loop cfg f' as of (t', c) \<Rightarrow> (t @ t', c))
      | (t, f', Break) \<Rightarrow> (t, Fallthrough)
      | (t, f', c) \<Rightarrow> (t, c))"

text \<open>\<open>realtime_api\<close> starts with no local variable bound; leaving the loop returns.\<close>

definition realtime_api :: "config \<Rightarrow> attempt list \<Rightarrow> action list \<times> ctrl" where
  "realtime_api cfg as =
     (case reconnect_loop cfg new_frame as of
        (t, Fallthrough) \<Rightarrow> (t, Return)
      | (t, c) \<Rightarrow> (t, c))"

text \<open>
  \<open>asyncio.run(main_async())\<close>, line 158. What the coroutine returns or raises leaves
  \<open>asyncio.run\<close> as it is, with one exception: nothing in the program cancels a task, so
  a \<open>CancelledError\<close> in the coroutine is the interrupt signal's cancellation of the
  main task, and \<open>asyncio.run\<close> raises \<open>KeyboardInterrupt\<close> for it.
\<close>

definition asyncio_run :: "action list \<times> ctrl \<Rightarrow> action list \<times> ctrl" where
  "asyncio_run r =
     (case r of
        (t, Raise e) \<Rightarrow> (t, Raise (if e = CancelledError then KeyboardInterrupt else e))
      | (t, c) \<Rightarrow> (t, c))"

text \<open>\<open>main\<close>, lines 156 to 162.\<close>

definition main :: "config \<Rightarrow> attempt list \<Rightarrow> action list \<times> ctrl" where
  "main cfg as =
     (case asyncio_run (realtime_api cfg as) of
        (t, Raise e) \<Rightarrow>
          (if e = KeyboardInterrupt then (t @ [LogInfo ''Program terminated by user''], Return)
           else if is_Exception e then
             (t @ [LogException (''An unexpected error occurred: '' @ str_exn e)], Return)
           else (t, Raise e))
      | (t, c) \<Rightarrow> (t, c))"

text \<open>
  The script, lines 165 to 167, and the status the interpreter exits with: 0 when
  \<open>main\<close> returns, 1 when an exception leaves it, none while it runs.
\<close>

definition program :: "config \<Rightarrow> attempt list \<Rightarrow> action list \<times> int option" where
  "program cfg as =
     (case main cfg as of
        (t, Running) \<Rightarrow> (Print ''Press Ctrl+C to exit the program.'' # t, None)
      | (t, Raise e) \<Rightarrow> (Print ''Press Ctrl+C to exit the program.'' # t, Some 1)
      | (t, c) \<Rightarrow> (Print ''Press Ctrl+C to exit the program.'' # t, Some 0))"

section \<open>The inbound dispatch loop\<close>

text \<open>
  Modelled from the spec: \<open>process_ws_messages\<close> (module
  \<open>voice_assistant.websocket_handler\<close>) and the tool framework are not among the
  sources. The model follows the specification's dispatch table and its contract of the
  tool bridge: \<open>invoke(name, arguments)\<close> returns a result or fails with a \<open>ToolError\<close>,
  and a failure is turned into the text of the result. The bridge is a parameter;
  \<open>Inl\<close> is the \<open>ToolError\<close> with its message.
\<close>

datatype inbound =
    SpeechStarted
  | SpeechStopped
  | AudioDelta string
  | AudioDone
  | TranscriptDelta string
  | TranscriptDone string
  | FunctionCallRequested string string string
  | FunctionCallArgumentsDone string
  | ErrorEvent bool string
  | Other string

datatype receiver_action =
    MuteOutbound
  | CancelCurrent
  | Enqueue bytes
  | TranscriptSink string
  | Invoke string string
  | SendEvent outbound
  | LogEvent string
  | CloseSession

text \<open>Arguments accumulate by call id; the first fragment records the function's name.\<close>

fun accumulate ::
  "string \<Rightarrow> string \<Rightarrow> string \<Rightarrow> (string \<times> string \<times> string) list
   \<Rightarrow> (string \<times> string \<times> string) list"
where
  "accumulate cid nm frag [] = [(cid, nm, frag)]"
| "accumulate cid nm frag ((cid', nm', args) # rest) =
     (if cid = cid' then (cid', nm', args @ frag) # rest
      else (cid', nm', args) # accumulate cid nm frag rest)"

text \<open>
  One event: the actions, the receiver's state after it, and whether the session goes on
  (\<open>False\<close> only for an error the service flags as fatal).
\<close>

definition dispatch ::
  "(string \<Rightarrow> string \<Rightarrow> string + string) \<Rightarrow> receiver \<Rightarrow> inbound
   \<Rightarrow> receiver_action list \<times> receiver \<times> bool"
where
  "dispatch bridge r ev =
     (case ev of
        SpeechStarted \<Rightarrow> ([MuteOutbound, CancelCurrent], r\<lparr>turn := UserSpeaking\<rparr>, True)
      | SpeechStopped \<Rightarrow> ([], r\<lparr>turn := Idle\<rparr>, True)
      | AudioDelta payload \<Rightarrow>
          (case base64_decode_audio payload of
             Some pcm \<Rightarrow> ([Enqueue pcm], r\<lparr>turn := AssistantResponding\<rparr>, True)
           | None \<Rightarrow> ([LogEvent ''malformed audio payload''], r, True))
      | AudioDone \<Rightarrow> ([], r\<lparr>turn := Idle\<rparr>, True)
      | TranscriptDelta txt \<Rightarrow> ([TranscriptSink txt], r, True)
      | TranscriptDone txt \<Rightarrow> ([TranscriptSink txt], r, True)
      | FunctionCallRequested cid nm frag \<Rightarrow>
          ([], r\<lparr>call_arguments := accumulate cid nm frag (call_arguments r)\<rparr>, True)
      | FunctionCallArgumentsDone cid \<Rightarrow>
          (case map_of (call_arguments r) cid of
             None \<Rightarrow> ([LogEvent ''arguments done for an unknown call''], r, True)
           | Some (nm, args) \<Rightarrow>
               ([Invoke nm args,
                 SendEvent (FunctionCallResult cid
                   (case bridge nm args of Inl tool_error \<Rightarrow> tool_error | Inr result \<Rightarrow> result))],
                r\<lparr>call_arguments := filter (\<lambda>entry. fst entry \<noteq> cid) (call_arguments r)\<rparr>,
                True))
      | ErrorEvent fatal msg \<Rightarrow>
          (if fatal then ([LogEvent msg, CloseSession], r, False) else ([LogEvent msg], r, True))
      | Other tag \<Rightarrow> ([], r, True))"

text \<open>
  The loop dispatches the events in the order the transport yields them and stops at a
  close. It returns the actions, the state, and the events left undispatched.
\<close>

fun dispatch_loop ::
  "(string \<Rightarrow> string \<Rightarrow> string + string) \<Rightarrow> receiver \<Rightarrow> inbound list
   \<Rightarrow> receiver_action list \<times> receiver \<times> inbound list"
where
  "dispatch_loop bridge r [] = ([], r, [])"
| "dispatch_loop bridge r (ev # evs) =
     (case dispatch bridge r ev of
        (acts, r', True) \<Rightarrow>
          (case dispatch_loop bridge r' evs of (acts', r'', left) \<Rightarrow> (acts @ acts', r'', left))
      | (acts, r', False) \<Rightarrow> (acts, r', evs))"

section \<open>Observations on a run\<close>

text \<open>What a trace of actions shows: the sends by kind, the objects an action touches,
  and whether every object that was opened is released later in the trace.\<close>

fun is_send :: "action \<Rightarrow> bool" where
  "is_send (Send ws ev) = True"
| "is_send _ = False"

fun is_audio_append :: "action \<Rightarrow> bool" where
  "is_audio_append (Send ws (InputAudioBufferAppend audio)) = True"
| "is_audio_append _ = False"

fun is_session_configure :: "action \<Rightarrow> bool" where
  "is_session_configure (Send ws (SessionUpdate sess)) = True"
| "is_session_configure _ = False"

fun is_opened :: "action \<Rightarrow> bool" where
  "is_opened (Connect key r) = (r \<noteq> None)"
| "is_opened _ = False"

text \<open>A pass of the reconnect loop opens a connection when the key is set and neither
  constructor nor the connect raises.\<close>

definition connects :: "attempt \<Rightarrow> bool" where
  "connects a \<longleftrightarrow>
     str_truthy (api_key a) \<and> microphone_raises a = None
     \<and> visual_interface_raises a = None \<and> connect_raises a = None"

fun objects :: "action \<Rightarrow> nat list" where
  "objects (NewMicrophone m st) = [m]"
| "objects (NewVisualInterface vi) = [vi]"
| "objects (Connect key r) = (case r of None \<Rightarrow> [] | Some ws \<Rightarrow> [ws])"
| "objects (Send ws ev) = [ws]"
| "objects (CreateWsTask ws m vi st) = [ws, m, vi]"
| "objects (CreateVisualTask vi) = [vi]"
| "objects (MicStartRecording m) = [m]"
| "objects (MicGetAudioData m r) = [m]"
| "objects (VisProcessAudioData vi audio) = [vi]"
| "objects (MicStopRecording m) = [m]"
| "objects (MicClose m) = [m]"
| "objects (WsClose ws) = [ws]"
| "objects (VisSetActive vi b) = [vi]"
| "objects _ = []"

fun is_create_task :: "action \<Rightarrow> bool" where
  "is_create_task (CreateWsTask ws m vi st) = True"
| "is_create_task _ = False"

text \<open>The actions that acquire a resource: a microphone or an open connection.\<close>

fun acquires :: "action \<Rightarrow> bool" where
  "acquires (NewMicrophone m st) = True"
| "acquires (Connect key r) = (r \<noteq> None)"
| "acquires _ = False"

text \<open>
  \<open>released t\<close>: after each microphone is created the trace has a call that stops it
  and a call that closes it, and after each connection is opened the trace has a call
  that closes it.
\<close>

fun released :: "action list \<Rightarrow> bool" where
  "released [] = True"
| "released (x # t) =
     ((case x of
         NewMicrophone m st \<Rightarrow> MicStopRecording m \<in> set t \<and> MicClose m \<in> set t
       | Connect key r \<Rightarrow> (case r of None \<Rightarrow> True | Some ws \<Rightarrow> WsClose ws \<in> set t)
       | _ \<Rightarrow> True)
      \<and> released t)"

text \<open>
  The actions a session makes once it has started recording, up to the end of the
  \<open>async with\<close> statement: the passes of the pacing loop, the handlers' log lines, the
  \<open>finally\<close> block, the awaits and the close of the connection. Each names the
  session's own connection \<open>ws\<close>, microphone \<open>m\<close> and visual interface \<open>vi\<close> only.
\<close>

fun session_tail :: "nat \<Rightarrow> nat \<Rightarrow> nat \<Rightarrow> action \<Rightarrow> bool" where
  "session_tail ws m vi (LogInfo msg) = True"
| "session_tail ws m vi (LogDebug msg) = True"
| "session_tail ws m vi (LogException msg) = True"
| "session_tail ws m vi (LogWsEvent ev) = (case ev of InputAudioBufferAppend audio \<Rightarrow> True | _ \<Rightarrow> False)"
| "session_tail ws m vi (Send ws' ev) =
     (ws' = ws \<and> (case ev of InputAudioBufferAppend audio \<Rightarrow> True | _ \<Rightarrow> False))"
| "session_tail ws m vi (Sleep ms) = True"
| "session_tail ws m vi (MicGetAudioData m' r) = (m' = m)"
| "session_tail ws m vi (VisProcessAudioData vi' audio) = (vi' = vi)"
| "session_tail ws m vi ExitEventSet = True"
| "session_tail ws m vi (MicStopRecording m') = (m' = m)"
| "session_tail ws m vi (MicClose m') = (m' = m)"
| "session_tail ws m vi (WsClose ws') = (ws' = ws)"
| "session_tail ws m vi (VisSetActive vi' b) = (vi' = vi \<and> \<not> b)"
| "session_tail ws m vi AwaitWsTask = True"
| "session_tail ws m vi AwaitVisualTask = True"
| "session_tail ws m vi _ = False"

text \<open>A frame is well formed when the objects its variables hold have been handed
  out already.\<close>

definition frame_ok :: "frame \<Rightarrow> bool" where
  "frame_ok f \<longleftrightarrow>
     (case mic f of None \<Rightarrow> True | Some m \<Rightarrow> m < fresh f)
     \<and> (case visual_interface f of None \<Rightarrow> True | Some vi \<Rightarrow> vi < fresh f)
     \<and> (case websocket f of None \<Rightarrow> True | Some ws \<Rightarrow> ws < fresh f)"

text \<open>
  The calls of lines 145 to 148 that a pass leaving with frame \<open>f\<close> makes all return:
  \<open>mic.stop_recording()\<close> and \<open>mic.close()\<close> if \<open>mic\<close> is bound, the awaited
  \<open>websocket.close()\<close> if \<open>websocket\<close> is bound.
\<close>

definition final_calls_return :: "frame \<Rightarrow> attempt \<Rightarrow> bool" where
  "final_calls_return f a \<longleftrightarrow>
     (mic f = None \<or> (final_stop_recording_raises a = None \<and> final_close_raises a = None))
     \<and> (websocket f = None \<or> final_websocket_close_raises a = None)"

text \<open>A pass of the reconnect loop reaches the pacing loop when it opens a connection
  and neither the send of the session update nor \<open>start_recording\<close> raises.\<close>

definition starts_recording :: "attempt \<Rightarrow> bool" where
  "starts_recording a \<longleftrightarrow>
     connects a \<and> session_send_raises a = None \<and> start_recording_raises a = None"

section \<open>Example environments\<close>

text \<open>Concrete constants and scripts, for evaluating the definitions.\<close>

definition example_config :: config where
  "example_config =
     \<lparr> SESSION_INSTRUCTIONS = ''You are a helpful assistant.'',
       SILENCE_THRESHOLD = 1 / 2,
       PREFIX_PADDING_MS = 300,
       SILENCE_DURATION_MS = 500,
       TOOL_SCHEMAS =
         [\<lparr> schema_name = ''GetCurrentTime'',
             schema_description = ''A tool to get the current time.'',
             schema_parameters = ''{}'' \<rparr>] \<rparr>"

text \<open>A pass of the pacing loop while the microphone reports \<open>is_receiving\<close>.\<close>

definition tick_muted :: tick where
  "tick_muted =
     \<lparr> sleep_raises = None, is_receiving = True, get_audio_data = Some [1, 2, 3],
       send_raises = None, process_audio_data_raises = None \<rparr>"

text \<open>A pass that drains \<open>r\<close> from the microphone, the send raising \<open>e\<close> if any.\<close>

definition tick_drain :: "bytes option \<Rightarrow> exn option \<Rightarrow> tick" where
  "tick_drain r e =
     \<lparr> sleep_raises = None, is_receiving = False, get_audio_data = r,
       send_raises = e, process_audio_data_raises = None \<rparr>"

text \<open>A pass whose sleep is interrupted.\<close>

definition tick_interrupt :: "exn \<Rightarrow> tick" where
  "tick_interrupt e =
     \<lparr> sleep_raises = Some e, is_receiving = False, get_audio_data = None,
       send_raises = None, process_audio_data_raises = None \<rparr>"

text \<open>A pass of the reconnect loop with the key set and no call raising, over the given
  passes of the pacing loop.\<close>

definition attempt_ok :: "tick list \<Rightarrow> attempt" where
  "attempt_ok ts =
     \<lparr> api_key = Some ''sk-test'', microphone_raises = None, visual_interface_raises = None,
       connect_raises = None, session_send_raises = None, start_recording_raises = None,
       ticks = ts, stop_recording_raises = None, close_raises = None,
       websocket_close_raises = None, set_active_raises = None,
       ws_task_raises = None, visual_task_raises = None, aexit_raises = None,
       reconnect_sleep_raises = None, final_stop_recording_raises = None,
       final_close_raises = None, final_websocket_close_raises = None \<rparr>"

text \<open>A pass whose connect is refused.\<close>

definition attempt_refused :: attempt where
  "attempt_refused = (attempt_ok [])\<lparr>connect_raises := Some (OtherException ''refused'')\<rparr>"

text \<open>A session ended by a keyboard interrupt.\<close>

definition attempt_interrupted :: attempt where
  "attempt_interrupted = attempt_ok [tick_interrupt KeyboardInterrupt]"

text \<open>
  A session that is cancelled while it sleeps in the pacing loop, and cancelled again
  while it awaits \<open>websocket.close()\<close> at line 119 and at line 148.
\<close>

definition attempt_cancelled :: attempt where
  "attempt_cancelled =
     (attempt_ok [tick_interrupt CancelledError])
       \<lparr>websocket_close_raises := Some CancelledError,
        final_websocket_close_raises := Some CancelledError\<rparr>"

text \<open>
  A session ended by a keyboard interrupt, on a microphone whose \<open>stop_recording\<close>
  raises, at line 117 and again at line 145.
\<close>

definition attempt_failing_stop :: attempt where
  "attempt_failing_stop =
     (attempt_ok [tick_interrupt KeyboardInterrupt])
       \<lparr>stop_recording_raises := Some (OtherException ''device error''),
        final_stop_recording_raises := Some (OtherException ''device error'')\<rparr>"

text \<open>
  A session ended by a keyboard interrupt, on a microphone whose second \<open>close\<close>, at
  line 146, raises.
\<close>

definition attempt_failing_close :: attempt where
  "attempt_failing_close =
     (attempt_ok [tick_interrupt KeyboardInterrupt])
       \<lparr>final_close_raises := Some (OtherException ''stream closed'')\<rparr>"

section \<open>Properties\<close>

subsection \<open>SendMessageAsync.send_message\<close>

lemma find_None_name: "(find (\<lambda>agent. name agent = n) ags = None) = (n \<notin> name ` set ags)"
  by (induction ags) auto

text \<open>
  Claim C10. \<open>send_message\<close> raises for no unknown name. For an agency name that
  \<open>AGENCIES\<close> does not hold it returns the text "Agency '...' not found" and calls
  nothing; for an agent name that is given (not \<open>None\<close> and not empty, as the source
  tests it) and names no agent of the agency it returns the text "Agent '...' not found
  in agency '...'. Available agents: ..." and calls nothing. \<open>get_completion\<close> is
  called exactly when the agency exists and the agent name, if given, is the name of one
  of its agents, and then once, with the message and the first agent of that name (or
  none). The status string is returned exactly when that call was made and returned, and
  the only exception that leaves the method is one \<open>get_completion\<close> raised.
\<close>

theorem send_message_total:
  "(AGENCIES (agency_name self) = None \<longrightarrow>
      send_message AGENCIES completion self =
        ([], Inr (''Agency '' @ quoted (agency_name self) @ '' not found'')))
   \<and> (\<forall>agency n. AGENCIES (agency_name self) = Some agency \<and> agent_name self = Some n
          \<and> n \<noteq> [] \<and> n \<notin> name ` set (agents agency) \<longrightarrow>
        send_message AGENCIES completion self =
          ([], Inr (''Agent '' @ quoted n @ '' not found in agency ''
                    @ quoted (agency_name self) @ ''. Available agents: ''
                    @ join '', '' (map name (agents agency)))))
   \<and> (fst (send_message AGENCIES completion self) \<noteq> [] \<longleftrightarrow>
        (\<exists>agency. AGENCIES (agency_name self) = Some agency
           \<and> (str_truthy (agent_name self) \<longrightarrow>
                (\<exists>n. agent_name self = Some n \<and> n \<in> name ` set (agents agency)))))
   \<and> (\<forall>agency. AGENCIES (agency_name self) = Some agency \<longrightarrow>
        fst (send_message AGENCIES completion self) \<noteq> [] \<longrightarrow>
        fst (send_message AGENCIES completion self) =
          [GetCompletion (message self)
             (if str_truthy (agent_name self)
              then find (\<lambda>agent. Some (name agent) = agent_name self) (agents agency)
              else None)])
   \<and> (snd (send_message AGENCIES completion self)
         = Inr ''Message sent asynchronously. Use 'GetResponse' to check status.'' \<longleftrightarrow>
        fst (send_message AGENCIES completion self) \<noteq> [] \<and> completion = None)
   \<and> (\<forall>e. snd (send_message AGENCIES completion self) = Inl e \<longleftrightarrow>
        fst (send_message AGENCIES completion self) \<noteq> [] \<and> completion = Some e)"
proof (cases "AGENCIES (agency_name self)")
  case None
  then show ?thesis by (simp add: send_message_def quoted_def)
next
  case (Some agency)
  show ?thesis
  proof (cases "agent_name self")
    case None
    with Some show ?thesis
      by (cases completion) (simp_all add: send_message_def dispatch_message_def)
  next
    case (Some n) note n = this
    show ?thesis
    proof (cases "n = []")
      case True
      with n \<open>AGENCIES (agency_name self) = Some agency\<close> show ?thesis
        by (cases completion) (simp_all add: send_message_def dispatch_message_def)
    next
      case False
      show ?thesis
      proof (cases "find (\<lambda>agent. Some (name agent) = Some n) (agents agency)")
        case None
        then have "n \<notin> name ` set (agents agency)" by (simp add: find_None_name)
        with None False n \<open>AGENCIES (agency_name self) = Some agency\<close> show ?thesis
          by (simp add: send_message_def quoted_def)
      next
        case (Some ag)
        then have "n \<in> name ` set (agents agency)" using find_None_name[of n "agents agency"] by simp
        with Some False n \<open>AGENCIES (agency_name self) = Some agency\<close> show ?thesis
          by (cases completion) (simp_all add: send_message_def dispatch_message_def)
      qed
    qed
  qed
qed

theorem send_message_total_witness:
  "send_message [''ResearchAgency'' \<mapsto> \<lparr>agents = [\<lparr>name = ''BrowsingAgent''\<rparr>]\<rparr>] None
      \<lparr>message = ''hello'', agency_name = ''Nowhere'', agent_name = None\<rparr>
     = ([], Inr ''Agency 'Nowhere' not found'')
   \<and> send_message [''ResearchAgency'' \<mapsto> \<lparr>agents = [\<lparr>name = ''BrowsingAgent''\<rparr>]\<rparr>] None
      \<lparr>message = ''hello'', agency_name = ''ResearchAgency'', agent_name = Some ''Nobody''\<rparr>
     = ([], Inr ''Agent 'Nobody' not found in agency 'ResearchAgency'. Available agents: BrowsingAgent'')
   \<and> send_message [''ResearchAgency'' \<mapsto> \<lparr>agents = [\<lparr>name = ''BrowsingAgent''\<rparr>]\<rparr>] None
      \<lparr>message = ''hello'', agency_name = ''ResearchAgency'', agent_name = Some ''BrowsingAgent''\<rparr>
     = ([GetCompletion ''hello'' (Some \<lparr>name = ''BrowsingAgent''\<rparr>)],
        Inr ''Message sent asynchronously. Use 'GetResponse' to check status.'')"
  using
    send_message_total [of "[''ResearchAgency'' \<mapsto> \<lparr>agents = [\<lparr>name = ''BrowsingAgent''\<rparr>]\<rparr>]"
      "\<lparr>message = ''hello'', agency_name = ''Nowhere'', agent_name = None\<rparr>" None]
    send_message_total [of "[''ResearchAgency'' \<mapsto> \<lparr>agents = [\<lparr>name = ''BrowsingAgent''\<rparr>]\<rparr>]"
      "\<lparr>message = ''hello'', agency_name = ''ResearchAgency'', agent_name = Some ''Nobody''\<rparr>" None]
    send_message_total [of "[''ResearchAgency'' \<mapsto> \<lparr>agents = [\<lparr>name = ''BrowsingAgent''\<rparr>]\<rparr>]"
      "\<lparr>message = ''hello'', agency_name = ''ResearchAgency'', agent_name = Some ''BrowsingAgent''\<rparr>" None]
  by (simp add: quoted_def send_message_def dispatch_message_def)

subsection \<open>The pacing loop\<close>

lemma b64encode_Nil_iff: "b64encode x = [] \<longleftrightarrow> x = []"
  by (cases x rule: b64encode.cases) simp_all

lemma base64_encode_audio_Nil_iff: "base64_encode_audio x = [] \<longleftrightarrow> x = []"
  by (simp add: base64_encode_audio_def b64encode_Nil_iff)

lemma pacing_step_receiving: "is_receiving t \<Longrightarrow> fst (pacing_step ws m vi t) = [Sleep 10]"
  by (simp add: pacing_step_def split: option.splits)

lemma pacing_step_appends:
  "length (filter is_audio_append (fst (pacing_step ws m vi t))) \<le> (if is_receiving t then 0 else 1)"
  by (simp add: pacing_step_def audio_event_def split: option.splits)

lemma pacing_loop_appends:
  "length (filter is_audio_append (fst (pacing_loop ev ws m vi ts)))
     \<le> length (filter (\<lambda>t. \<not> is_receiving t) ts)"
proof (induction ts)
  case Nil
  show ?case by simp
next
  case (Cons t ts)
  have step: "length (filter is_audio_append (fst (pacing_step ws m vi t)))
                \<le> (if is_receiving t then 0 else 1)"
    by (rule pacing_step_appends)
  show ?case
  proof (cases "pacing_step ws m vi t")
    case (Pair as r)
    with step Cons show ?thesis
      by (cases r; cases "pacing_loop ev ws m vi ts") (auto split: if_splits)
  qed
qed

lemma enc123: "base64_encode_audio [1, 2, 3] = ''AQID''"
  by (simp add: base64_encode_audio_def b64_char_def b64_alphabet_def)

text \<open>
  Claim C2. In a pass of the pacing loop in which the microphone reports
  \<open>is_receiving\<close>, the pass does nothing but sleep, so it sends no audio-append event;
  a loop all of whose passes find the microphone receiving sends none at all; and in any
  loop the audio-append events sent are at most as many as the passes that found the
  microphone not receiving.
\<close>

theorem muted_while_receiving:
  "(is_receiving t \<longrightarrow> fst (pacing_step ws m vi t) = [Sleep 10]
      \<and> (\<forall>x \<in> set (fst (pacing_step ws m vi t)). \<not> is_audio_append x))
   \<and> ((\<forall>t \<in> set ts. is_receiving t) \<longrightarrow>
        (\<forall>x \<in> set (fst (pacing_loop exit_event ws m vi ts)). \<not> is_audio_append x))
   \<and> length (filter is_audio_append (fst (pacing_loop exit_event ws m vi ts)))
        \<le> length (filter (\<lambda>t. \<not> is_receiving t) ts)"
proof (intro conjI impI)
  assume "is_receiving t"
  then show "fst (pacing_step ws m vi t) = [Sleep 10]" by (rule pacing_step_receiving)
  then show "\<forall>x \<in> set (fst (pacing_step ws m vi t)). \<not> is_audio_append x" by simp
next
  assume all: "\<forall>t \<in> set ts. is_receiving t"
  then have "filter (\<lambda>t. \<not> is_receiving t) ts = []" by (simp add: filter_empty_conv)
  with pacing_loop_appends [of exit_event ws m vi ts]
  have "filter is_audio_append (fst (pacing_loop exit_event ws m vi ts)) = []" by simp
  then show "\<forall>x \<in> set (fst (pacing_loop exit_event ws m vi ts)). \<not> is_audio_append x"
    by (simp add: filter_empty_conv)
next
  show "length (filter is_audio_append (fst (pacing_loop exit_event ws m vi ts)))
        \<le> length (filter (\<lambda>t. \<not> is_receiving t) ts)"
    by (rule pacing_loop_appends)
qed

theorem muted_while_receiving_witness:
  "is_receiving tick_muted
   \<and> fst (pacing_step 2 0 1 tick_muted) = [Sleep 10]
   \<and> filter is_audio_append (fst (pacing_loop False 2 0 1 [tick_muted, tick_muted])) = []"
  using muted_while_receiving [of tick_muted 2 0 1 "[tick_muted, tick_muted]" False]
  by (simp add: tick_muted_def filter_empty_conv)

text \<open>
  Claim C5. A pass of the pacing loop whose sleep is not interrupted and that finds the
  microphone not receiving drains the microphone. When the drain is not empty, the pass
  logs and sends one audio-append event carrying the encoded frames and, the send having
  returned, hands the same frames to the visual interface; these are all its actions.
  When the drain is empty (\<open>None\<close> or no bytes), the drain is its only action after the
  sleep: nothing is sent and the visual interface gets nothing.
\<close>

theorem pacing_step_drain:
  assumes "sleep_raises t = None" and "\<not> is_receiving t"
  shows "(\<forall>audio. get_audio_data t = Some audio \<and> audio \<noteq> [] \<longrightarrow>
            fst (pacing_step ws m vi t) =
              [Sleep 10, MicGetAudioData m (Some audio),
               LogWsEvent (InputAudioBufferAppend (base64_encode_audio audio)),
               Send ws (InputAudioBufferAppend (base64_encode_audio audio))]
              @ (if send_raises t = None then [VisProcessAudioData vi audio] else [])
            \<and> snd (pacing_step ws m vi t) =
                (case send_raises t of Some e \<Rightarrow> Some e | None \<Rightarrow> process_audio_data_raises t))
         \<and> (get_audio_data t = None \<or> get_audio_data t = Some [] \<longrightarrow>
            pacing_step ws m vi t = ([Sleep 10, MicGetAudioData m (get_audio_data t)], None))"
  using assms
  by (auto simp: pacing_step_def audio_event_def base64_encode_audio_Nil_iff split: option.splits)

theorem pacing_step_drain_witness:
  "pacing_step 2 0 1 (tick_drain (Some [1, 2, 3]) None) =
     ([Sleep 10, MicGetAudioData 0 (Some [1, 2, 3]),
       LogWsEvent (InputAudioBufferAppend ''AQID''),
       Send 2 (InputAudioBufferAppend ''AQID''),
       VisProcessAudioData 1 [1, 2, 3]], None)
   \<and> pacing_step 2 0 1 (tick_drain None None) = ([Sleep 10, MicGetAudioData 0 None], None)
   \<and> pacing_step 2 0 1 (tick_drain (Some []) None) = ([Sleep 10, MicGetAudioData 0 (Some [])], None)"
  using pacing_step_drain [of "tick_drain (Some [1, 2, 3]) None" 2 0 1]
        pacing_step_drain [of "tick_drain None None" 2 0 1]
        pacing_step_drain [of "tick_drain (Some []) None" 2 0 1]
  by (simp add: tick_drain_def enc123 prod_eq_iff)

subsection \<open>Calls in sequence\<close>

lemma calls_subset: "x \<in> set (fst (calls cs)) \<Longrightarrow> x \<in> fst ` set cs"
  by (induction cs arbitrary: x rule: calls.induct) (auto split: prod.splits)

lemma calls_returns: "snd (calls cs) = None \<Longrightarrow> fst (calls cs) = map fst cs"
  by (induction cs rule: calls.induct) (auto split: prod.splits)

lemma after_finally_Running: "after_finally c r = Running \<longleftrightarrow> c = Running \<and> r = None"
  by (cases r) simp_all

lemma after_finally_Continue: "after_finally c r = Continue \<longleftrightarrow> c = Continue \<and> r = None"
  by (cases r) simp_all

subsection \<open>The entry point\<close>

lemmas model_defs = program_def main_def asyncio_run_def realtime_api_def loop_pass_def
     try_block_def outer_finally_def new_frame_def with_websocket_def session_body_def
     inner_try_def pacing_step_def audio_event_def inner_finally_def await_tasks_def
     except_clauses_def

lemma keepalive_signature:
  "sublist ''keepalive ping timeout''
     ''sent 1011 (internal error) keepalive ping timeout; no close frame received''"
  by (simp add: sublist_code)

text \<open>
  Claim C3, as the code has it. When \<open>OPENAI_API_KEY\<close> is missing (unset or empty) at
  startup, the program logs the error, makes no connection attempt (its only other
  actions are the usage line and \<open>pygame.quit\<close>), and \<open>main\<close> returns, so the exit
  status is 0.
\<close>

theorem missing_key_exit_status:
  "\<not> str_truthy (api_key a) \<Longrightarrow>
     program cfg (a # as) =
       ([Print ''Press Ctrl+C to exit the program.'',
         LogError ''Please set the OPENAI_API_KEY in your .env file.'',
         PygameQuit], Some 0)"
  by (cases "api_key a") (simp_all add: model_defs)

theorem missing_key_exit_status_witness:
  "\<not> str_truthy (api_key ((attempt_ok [])\<lparr>api_key := Some []\<rparr>))
   \<and> program example_config [(attempt_ok [])\<lparr>api_key := Some []\<rparr>, attempt_ok []] =
       ([Print ''Press Ctrl+C to exit the program.'',
         LogError ''Please set the OPENAI_API_KEY in your .env file.'',
         PygameQuit], Some 0)"
  using missing_key_exit_status [of "(attempt_ok [])\<lparr>api_key := Some []\<rparr>" example_config "[attempt_ok []]"]
  by (simp add: attempt_ok_def)

text \<open>
  The claim as stated asks for a non-zero exit status. With the key unset the program
  exits with status 0.
\<close>

theorem missing_key_nonzero_status_counterexample:
  "api_key ((attempt_ok [])\<lparr>api_key := None\<rparr>) = None
   \<and> snd (program example_config [(attempt_ok [])\<lparr>api_key := None\<rparr>]) = Some 0
   \<and> \<not> (\<exists>n. n \<noteq> 0 \<and> snd (program example_config [(attempt_ok [])\<lparr>api_key := None\<rparr>]) = Some n)"
  by (simp add: model_defs attempt_ok_def)

subsection \<open>Reconnection\<close>

text \<open>
  The \<open>except\<close> clauses ask for a reconnect exactly for a \<open>ConnectionClosedError\<close> whose
  text holds the keepalive signature, when the sleep of line 136 returns. They see only
  what leaves the \<open>try\<close> block: the \<open>try\<close> statement around the pacing loop takes every
  \<open>Exception\<close> that the loop raises, and so does the one around the awaits, so once
  \<open>start_recording\<close> has returned no pass of the loop whose cleanup calls return ends
  in a reconnect.
\<close>

lemma except_clauses_Continue_iff:
  "snd (except_clauses e a) = Continue \<longleftrightarrow>
     (\<exists>msg. e = ConnectionClosedError msg \<and> sublist ''keepalive ping timeout'' msg)
     \<and> reconnect_sleep_raises a = None"
  by (cases e; cases "reconnect_sleep_raises a") (simp_all add: except_clauses_def)

lemma except_clauses_not_Exception: "\<not> is_Exception e \<Longrightarrow> except_clauses e a = ([], Raise e)"
  by (cases e) (simp_all add: except_clauses_def)

lemma except_clauses_not_Running: "snd (except_clauses e a) \<noteq> Running"
  by (cases e; cases "reconnect_sleep_raises a") (simp_all add: except_clauses_def)

lemma pacing_loop_False_ctrl:
  "snd (pacing_loop False ws m vi ts) = Running \<or> (\<exists>e. snd (pacing_loop False ws m vi ts) = Raise e)"
  by (induction ts) (auto split: prod.splits option.splits)

lemma inner_finally_returns:
  "snd (inner_finally ws m vi a) = None \<longleftrightarrow>
     stop_recording_raises a = None \<and> close_raises a = None
     \<and> websocket_close_raises a = None \<and> set_active_raises a = None"
  by (cases "stop_recording_raises a"; cases "close_raises a";
      cases "websocket_close_raises a"; cases "set_active_raises a")
     (simp_all add: inner_finally_def)

lemma inner_try_ctrl:
  assumes "snd (inner_finally ws m vi a) = None"
  shows "snd (inner_try ws m vi a) = Running \<or> snd (inner_try ws m vi a) = Fallthrough
   \<or> (\<exists>e. snd (inner_try ws m vi a) = Raise e \<and> \<not> is_Exception e)"
  using pacing_loop_False_ctrl [of ws m vi "ticks a"] assms
  by (cases "inner_finally ws m vi a")
     (auto simp: inner_try_def split: prod.splits ctrl.splits)

lemma await_tasks_ctrl:
  "snd (await_tasks a) = Fallthrough \<or> (\<exists>e. snd (await_tasks a) = Raise e \<and> \<not> is_Exception e)"
  by (auto simp: await_tasks_def split: option.splits)

lemma session_body_recording_ctrl:
  assumes "session_send_raises a = None" and "start_recording_raises a = None"
    and "snd (inner_finally ws m vi a) = None"
  shows "snd (session_body cfg ws m vi a) = Running \<or> snd (session_body cfg ws m vi a) = Fallthrough
   \<or> (\<exists>e. snd (session_body cfg ws m vi a) = Raise e \<and> \<not> is_Exception e)"
  using assms(1,2) inner_try_ctrl [OF assms(3)] await_tasks_ctrl [of a]
  by (auto simp: session_body_def split: prod.splits ctrl.splits)

text \<open>A pass ends in a reconnect only when the \<open>except\<close> clauses ask for one.\<close>

lemma loop_pass_Continue:
  assumes "snd (snd (loop_pass cfg f a)) = Continue"
  shows "snd (snd (try_block cfg f a)) = Continue
     \<or> (\<exists>e. snd (snd (try_block cfg f a)) = Raise e \<and> snd (except_clauses e a) = Continue)"
proof (cases "try_block cfg f a")
  case (fields tb f' c)
  obtain tf r where o: "outer_finally f' a = (tf, r)" by (cases "outer_finally f' a")
  show ?thesis
  proof (cases c)
    case (Raise e)
    obtain th c' where h: "except_clauses e a = (th, c')" by (cases "except_clauses e a")
    from assms fields Raise h o have "after_finally c' r = Continue" by (simp add: loop_pass_def)
    then have "c' = Continue" by (simp add: after_finally_Continue)
    with fields Raise h show ?thesis by simp
  next
    case Continue
    with fields show ?thesis by simp
  next
    case Running
    with assms fields show ?thesis by (simp add: loop_pass_def)
  next
    case Fallthrough
    with assms fields o show ?thesis by (simp add: loop_pass_def after_finally_Continue)
  next
    case Break
    with assms fields o show ?thesis by (simp add: loop_pass_def after_finally_Continue)
  next
    case Return
    with assms fields o show ?thesis by (simp add: loop_pass_def after_finally_Continue)
  qed
qed

lemma no_reconnect_once_recording:
  assumes "session_send_raises a = None" and "start_recording_raises a = None"
    and "connect_raises a = None" and "visual_interface_raises a = None"
    and "microphone_raises a = None"
    and "stop_recording_raises a = None" and "close_raises a = None"
    and "websocket_close_raises a = None" and "set_active_raises a = None"
    and "aexit_raises a = None"
  shows "snd (snd (loop_pass cfg f a)) \<noteq> Continue"
proof
  assume "snd (snd (loop_pass cfg f a)) = Continue"
  from loop_pass_Continue [OF this] consider
      (c) "snd (snd (try_block cfg f a)) = Continue"
    | (r) e where "snd (snd (try_block cfg f a)) = Raise e" "snd (except_clauses e a) = Continue"
    by blast
  note lp = this
  show False
  proof (cases "str_truthy (api_key a)")
    case False
    then have "snd (snd (try_block cfg f a)) = Return"
      by (cases "api_key a") (simp_all add: try_block_def)
    with lp show False by cases simp_all
  next
    case True
    then obtain key where key: "api_key a = Some key" "key \<noteq> []" by (cases "api_key a") auto
    let ?ws = "fresh f + 2" and ?m = "fresh f" and ?vi = "fresh f + 1"
    from assms(6-9) have fin: "snd (inner_finally ?ws ?m ?vi a) = None"
      by (simp add: inner_finally_returns)
    have w: "snd (with_websocket cfg ?ws ?m ?vi a) = snd (session_body cfg ?ws ?m ?vi a)"
      using assms(10)
      by (cases "session_body cfg ?ws ?m ?vi a")
         (simp add: with_websocket_def split: ctrl.splits)
    have tb: "snd (snd (try_block cfg f a)) =
        (if snd (session_body cfg ?ws ?m ?vi a) = Fallthrough then Break
         else snd (session_body cfg ?ws ?m ?vi a))"
      using key assms(3-5) w
      by (cases "with_websocket cfg ?ws ?m ?vi a") (simp add: try_block_def)
    from session_body_recording_ctrl [OF assms(1,2) fin, of cfg]
    consider "snd (session_body cfg ?ws ?m ?vi a) = Running"
      | "snd (session_body cfg ?ws ?m ?vi a) = Fallthrough"
      | e where "snd (session_body cfg ?ws ?m ?vi a) = Raise e" "\<not> is_Exception e"
      by blast
    then show False
    proof cases
      case 1
      with tb lp show False by cases simp_all
    next
      case 2
      with tb lp show False by cases simp_all
    next
      case 3
      with tb have t: "snd (snd (try_block cfg f a)) = Raise e" by simp
      from lp show False
      proof cases
        case c
        with t show False by simp
      next
        case (r e')
        with t have "e' = e" by simp
        with r(2) 3(2) show False by (simp add: except_clauses_not_Exception)
      qed
    qed
  qed
qed

text \<open>A close with the keepalive signature that the send of the session update raises
  reaches the \<open>except\<close> clauses: the loop waits a second and starts a second pass.\<close>

lemma keepalive_close_at_configure_retried:
  "realtime_api example_config
     [(attempt_ok [])\<lparr>session_send_raises := Some (ConnectionClosedError
           ''sent 1011 (internal error) keepalive ping timeout; no close frame received'')\<rparr>,
      (attempt_ok [])\<lparr>api_key := None\<rparr>] =
    ([NewMicrophone 0 AsyncMicrophone, NewVisualInterface 1, Connect ''sk-test'' (Some 2),
      LogInfo ''Connected to the server.'',
      LogWsEvent (session_update example_config),
      Send 2 (session_update example_config),
      WsClose 2,
      LogWarning ''WebSocket connection lost due to keepalive ping timeout. Reconnecting...'',
      Sleep 1000,
      MicStopRecording 0, MicClose 0, WsClose 2, PygameQuit,
      LogError ''Please set the OPENAI_API_KEY in your .env file.'',
      MicStopRecording 0, MicClose 0, WsClose 2, PygameQuit],
     Return)"
  by (simp add: model_defs attempt_ok_def keepalive_signature)

text \<open>
  Claim C1, at a session in progress. The first send of the pacing loop raises a
  \<open>ConnectionClosedError\<close> with the keepalive signature. The handler of line 111 logs
  it as an unexpected error, the resources are released, and \<open>realtime_api\<close> returns:
  there is no delay of one second and no second connect, although the script holds the
  environment of a second pass.
\<close>

theorem keepalive_close_in_pacing_loop_not_retried:
  "realtime_api example_config
     [attempt_ok [tick_drain (Some [1, 2, 3])
        (Some (ConnectionClosedError
           ''sent 1011 (internal error) keepalive ping timeout; no close frame received''))],
      attempt_ok []] =
    ([NewMicrophone 0 AsyncMicrophone, NewVisualInterface 1, Connect ''sk-test'' (Some 2),
      LogInfo ''Connected to the server.'',
      LogWsEvent (session_update example_config),
      Send 2 (session_update example_config),
      CreateWsTask 2 0 1 process_ws_messages_start, CreateVisualTask 1,
      LogInfo ''Conversation started. Speak freely, and the assistant will respond.'',
      MicStartRecording 0,
      LogInfo ''Recording started. Listening for speech...'',
      Sleep 10, MicGetAudioData 0 (Some [1, 2, 3]),
      LogWsEvent (InputAudioBufferAppend ''AQID''),
      Send 2 (InputAudioBufferAppend ''AQID''),
      LogException ''An unexpected error occurred in the main loop: sent 1011 (internal error) keepalive ping timeout; no close frame received'',
      ExitEventSet, MicStopRecording 0, MicClose 0, WsClose 2, VisSetActive 1 False,
      AwaitWsTask, AwaitVisualTask, WsClose 2,
      MicStopRecording 0, MicClose 0, WsClose 2, PygameQuit],
     Return)"
  by (simp add: model_defs attempt_ok_def tick_drain_def enc123 keepalive_signature)

subsection \<open>The session update\<close>

lemma pacing_step_no_configure:
  "filter (\<lambda>x. is_session_configure x \<or> is_opened x) (fst (pacing_step ws m vi t)) = []"
  by (simp add: pacing_step_def audio_event_def split: option.splits)

lemma pacing_loop_no_configure:
  "filter (\<lambda>x. is_session_configure x \<or> is_opened x) (fst (pacing_loop ev ws m vi ts)) = []"
proof (induction ts)
  case Nil
  show ?case by simp
next
  case (Cons t ts)
  from pacing_step_no_configure [of ws m vi t] Cons show ?case
    by (cases "pacing_step ws m vi t"; cases "pacing_loop ev ws m vi ts")
       (auto split: option.splits)
qed

lemma inner_finally_member:
  assumes "x \<in> set (fst (inner_finally ws m vi a))"
  shows "x \<in> {ExitEventSet, MicStopRecording m, MicClose m, WsClose ws, VisSetActive vi False}"
proof -
  from assms have "x \<in> fst ` set [(ExitEventSet, None),
            (MicStopRecording m, stop_recording_raises a),
            (MicClose m, close_raises a),
            (WsClose ws, websocket_close_raises a),
            (VisSetActive vi False, set_active_raises a)]"
    unfolding inner_finally_def by (rule calls_subset)
  then show ?thesis by auto
qed

lemma inner_finally_no_configure:
  "filter (\<lambda>x. is_session_configure x \<or> is_opened x) (fst (inner_finally ws m vi a)) = []"
proof -
  have "\<not> (is_session_configure x \<or> is_opened x)"
    if "x \<in> set (fst (inner_finally ws m vi a))" for x
    using inner_finally_member [OF that] by auto
  then show ?thesis by (auto simp: filter_empty_conv)
qed

lemma inner_try_no_configure:
  "filter (\<lambda>x. is_session_configure x \<or> is_opened x) (fst (inner_try ws m vi a)) = []"
  using pacing_loop_no_configure [of False ws m vi "ticks a"]
    inner_finally_no_configure [of ws m vi a]
  by (cases "inner_finally ws m vi a")
     (auto simp: inner_try_def split: prod.splits ctrl.splits)

lemma await_tasks_no_configure:
  "filter (\<lambda>x. is_session_configure x \<or> is_opened x) (fst (await_tasks a)) = []"
  by (auto simp: await_tasks_def split: option.splits)

lemma session_body_configure:
  "\<exists>post. fst (session_body cfg ws m vi a) =
      [LogInfo ''Connected to the server.'', LogWsEvent (session_update cfg),
       Send ws (session_update cfg)] @ post
     \<and> filter (\<lambda>x. is_session_configure x \<or> is_opened x) post = []"
  using inner_try_no_configure [of ws m vi a] await_tasks_no_configure [of a]
  by (auto simp: session_body_def split: prod.splits ctrl.splits option.splits)

lemma with_websocket_configure:
  "\<exists>post. fst (with_websocket cfg ws m vi a) =
      [LogInfo ''Connected to the server.'', LogWsEvent (session_update cfg),
       Send ws (session_update cfg)] @ post
     \<and> filter (\<lambda>x. is_session_configure x \<or> is_opened x) post = []"
proof -
  from session_body_configure [of cfg ws m vi a] obtain post where
    post: "fst (session_body cfg ws m vi a) =
      [LogInfo ''Connected to the server.'', LogWsEvent (session_update cfg),
       Send ws (session_update cfg)] @ post"
      "filter (\<lambda>x. is_session_configure x \<or> is_opened x) post = []" by blast
  show ?thesis
  proof (cases "snd (session_body cfg ws m vi a) = Running")
    case True
    with post show ?thesis
      by (cases "session_body cfg ws m vi a") (simp add: with_websocket_def)
  next
    case False
    with post have "fst (with_websocket cfg ws m vi a) =
      [LogInfo ''Connected to the server.'', LogWsEvent (session_update cfg),
       Send ws (session_update cfg)] @ (post @ [WsClose ws])"
      by (cases "session_body cfg ws m vi a") (auto simp: with_websocket_def split: ctrl.splits)
    with post(2) show ?thesis by (intro exI [of _ "post @ [WsClose ws]"]) simp
  qed
qed

lemma except_clauses_no_send:
  "filter (\<lambda>x. is_send x \<or> is_opened x) (fst (except_clauses e a)) = []"
  by (cases e) (simp_all add: except_clauses_def)

lemma outer_finally_member:
  assumes "x \<in> set (fst (outer_finally f a))"
  shows "(\<exists>m. mic f = Some m \<and> (x = MicStopRecording m \<or> x = MicClose m))
     \<or> (\<exists>ws. websocket f = Some ws \<and> x = WsClose ws) \<or> x = PygameQuit"
proof -
  from assms have "x \<in> fst ` set
       ((case mic f of
           None \<Rightarrow> []
         | Some m \<Rightarrow> [(MicStopRecording m, final_stop_recording_raises a),
                      (MicClose m, final_close_raises a)])
        @ (case websocket f of
             None \<Rightarrow> []
           | Some ws \<Rightarrow> [(WsClose ws, final_websocket_close_raises a)])
        @ [(PygameQuit, None)])"
    unfolding outer_finally_def by (rule calls_subset)
  then show ?thesis by (auto split: option.splits)
qed

lemma outer_finally_no_send:
  "filter (\<lambda>x. is_send x \<or> is_opened x) (fst (outer_finally f a)) = []"
proof -
  have "\<not> (is_send x \<or> is_opened x)" if "x \<in> set (fst (outer_finally f a))" for x
    using outer_finally_member [OF that] by auto
  then show ?thesis by (auto simp: filter_empty_conv)
qed

lemma is_configure_is_send: "is_session_configure x \<Longrightarrow> is_send x"
  by (cases x) simp_all

lemma try_block_connects:
  assumes "connects a"
  shows "\<exists>key. api_key a = Some key \<and> key \<noteq> [] \<and>
     try_block cfg f a =
       ([NewMicrophone (fresh f) AsyncMicrophone, NewVisualInterface (fresh f + 1),
         Connect key (Some (fresh f + 2))]
        @ fst (with_websocket cfg (fresh f + 2) (fresh f) (fresh f + 1) a),
        f\<lparr>mic := Some (fresh f), visual_interface := Some (fresh f + 1),
          websocket := Some (fresh f + 2), fresh := fresh f + 3\<rparr>,
        if snd (with_websocket cfg (fresh f + 2) (fresh f) (fresh f + 1) a) = Fallthrough
        then Break else snd (with_websocket cfg (fresh f + 2) (fresh f) (fresh f + 1) a))"
  using assms
  by (cases "api_key a")
     (auto simp: connects_def try_block_def split: prod.splits)

lemma try_block_not_connects:
  assumes "\<not> connects a"
  shows "filter (\<lambda>x. is_send x \<or> is_opened x) (fst (try_block cfg f a)) = []"
  using assms
  by (cases "api_key a")
     (auto simp: connects_def try_block_def split: option.splits)

lemma loop_pass_trace:
  "\<exists>suffix. fst (loop_pass cfg f a) = fst (try_block cfg f a) @ suffix
     \<and> filter (\<lambda>x. is_send x \<or> is_opened x) suffix = []"
proof (cases "try_block cfg f a")
  case (fields tb f' c)
  obtain tf r where o: "outer_finally f' a = (tf, r)" by (cases "outer_finally f' a")
  with outer_finally_no_send [of f' a]
  have tf: "filter (\<lambda>x. is_send x \<or> is_opened x) tf = []" by simp
  show ?thesis
  proof (cases c)
    case (Raise e)
    obtain th c' where h: "except_clauses e a = (th, c')" by (cases "except_clauses e a")
    with except_clauses_no_send [of e a]
    have "filter (\<lambda>x. is_send x \<or> is_opened x) th = []" by simp
    with tf fields Raise h o show ?thesis by (simp add: loop_pass_def)
  next
    case Running
    with fields show ?thesis by (simp add: loop_pass_def)
  qed (use fields o tf in \<open>simp_all add: loop_pass_def\<close>)
qed

lemma filter_or_Nil:
  "filter (\<lambda>x. P x \<or> Q x) xs = [] \<longleftrightarrow> filter P xs = [] \<and> filter Q xs = []"
  by (auto simp: filter_empty_conv)

lemma loop_pass_connects:
  assumes "connects a"
  shows "\<exists>key post. api_key a = Some key \<and>
     fst (loop_pass cfg f a) =
       [NewMicrophone (fresh f) AsyncMicrophone, NewVisualInterface (fresh f + 1),
        Connect key (Some (fresh f + 2)), LogInfo ''Connected to the server.'',
        LogWsEvent (session_update cfg), Send (fresh f + 2) (session_update cfg)] @ post
     \<and> filter is_session_configure post = [] \<and> filter is_opened post = []"
proof -
  from try_block_connects [OF assms, of cfg f] obtain key where
    key: "api_key a = Some key"
    and tb: "fst (try_block cfg f a) =
       [NewMicrophone (fresh f) AsyncMicrophone, NewVisualInterface (fresh f + 1),
         Connect key (Some (fresh f + 2))]
        @ fst (with_websocket cfg (fresh f + 2) (fresh f) (fresh f + 1) a)"
    by auto
  from with_websocket_configure [of cfg "fresh f + 2" "fresh f" "fresh f + 1" a] obtain p1 where
    p1: "fst (with_websocket cfg (fresh f + 2) (fresh f) (fresh f + 1) a) =
      [LogInfo ''Connected to the server.'', LogWsEvent (session_update cfg),
       Send (fresh f + 2) (session_update cfg)] @ p1"
      "filter (\<lambda>x. is_session_configure x \<or> is_opened x) p1 = []" by blast
  from loop_pass_trace [of cfg f a] obtain suffix where
    sf: "fst (loop_pass cfg f a) = fst (try_block cfg f a) @ suffix"
      "filter (\<lambda>x. is_send x \<or> is_opened x) suffix = []" by blast
  from sf(2) have "filter is_session_configure suffix = []" "filter is_opened suffix = []"
    by (auto simp: filter_empty_conv dest: is_configure_is_send)
  with p1(2) have "filter is_session_configure (p1 @ suffix) = []"
      "filter is_opened (p1 @ suffix) = []"
    by (simp_all add: filter_or_Nil)
  moreover from sf(1) tb p1(1) have "fst (loop_pass cfg f a) =
       [NewMicrophone (fresh f) AsyncMicrophone, NewVisualInterface (fresh f + 1),
        Connect key (Some (fresh f + 2)), LogInfo ''Connected to the server.'',
        LogWsEvent (session_update cfg), Send (fresh f + 2) (session_update cfg)] @ (p1 @ suffix)"
    by simp
  ultimately show ?thesis using key by blast
qed

lemma loop_pass_not_connects:
  assumes "\<not> connects a"
  shows "filter is_send (fst (loop_pass cfg f a)) = [] \<and> filter is_opened (fst (loop_pass cfg f a)) = []"
proof -
  from loop_pass_trace [of cfg f a] obtain suffix where
    sf: "fst (loop_pass cfg f a) = fst (try_block cfg f a) @ suffix"
      "filter (\<lambda>x. is_send x \<or> is_opened x) suffix = []" by blast
  with try_block_not_connects [OF assms, of cfg f] show ?thesis
    by (simp add: filter_or_Nil)
qed

lemma loop_pass_count:
  "length (filter is_session_configure (fst (loop_pass cfg f a)))
     = length (filter is_opened (fst (loop_pass cfg f a)))"
proof (cases "connects a")
  case True
  from loop_pass_connects [OF True, of cfg f] obtain key post where
    "fst (loop_pass cfg f a) =
       [NewMicrophone (fresh f) AsyncMicrophone, NewVisualInterface (fresh f + 1),
        Connect key (Some (fresh f + 2)), LogInfo ''Connected to the server.'',
        LogWsEvent (session_update cfg), Send (fresh f + 2) (session_update cfg)] @ post"
    "filter is_session_configure post = []" "filter is_opened post = []" by blast
  then show ?thesis by (simp add: session_update_def)
next
  case False
  from loop_pass_not_connects [OF False, of cfg f]
  have "filter is_send (fst (loop_pass cfg f a)) = []" "filter is_opened (fst (loop_pass cfg f a)) = []"
    by simp_all
  moreover from this(1) have "filter is_session_configure (fst (loop_pass cfg f a)) = []"
    by (auto simp: filter_empty_conv dest: is_configure_is_send)
  ultimately show ?thesis by simp
qed

lemma reconnect_loop_count:
  "length (filter is_session_configure (fst (reconnect_loop cfg f as)))
     = length (filter is_opened (fst (reconnect_loop cfg f as)))"
proof (induction as arbitrary: f)
  case Nil
  show ?case by simp
next
  case (Cons a as)
  obtain t f' c where lp: "loop_pass cfg f a = (t, f', c)" by (cases "loop_pass cfg f a")
  with loop_pass_count [of cfg f a]
  have t: "length (filter is_session_configure t) = length (filter is_opened t)" by simp
  show ?case
  proof (cases "c = Continue")
    case True
    obtain t' c' where rl: "reconnect_loop cfg f' as = (t', c')" by (cases "reconnect_loop cfg f' as")
    with Cons [of f'] have "length (filter is_session_configure t') = length (filter is_opened t')" by simp
    with t lp rl True show ?thesis by simp
  next
    case False
    with lp t show ?thesis by (cases c) simp_all
  qed
qed

lemma realtime_api_trace: "fst (realtime_api cfg as) = fst (reconnect_loop cfg new_frame as)"
  by (cases "reconnect_loop cfg new_frame as") (simp add: realtime_api_def split: ctrl.splits)

text \<open>
  Claim C4. A pass of the reconnect loop that opens a connection begins with the two
  constructors, the connect, the log line, and the log and the send of the session update
  on the new connection; nothing after them in the pass sends a session update or opens
  a connection. So each session sends exactly one session update, right after its
  connect and before every audio-append event. A pass that opens no connection sends
  nothing. Over a whole run the session updates sent are as many as the connections
  opened. The session update carries the modalities, the instructions, the voice, the
  two audio formats, the turn detection settings and the tool schemas.
\<close>

theorem session_configure_once:
  "(connects a \<longrightarrow>
      (\<exists>key post. api_key a = Some key \<and>
         fst (loop_pass cfg f a) =
           [NewMicrophone (fresh f) AsyncMicrophone, NewVisualInterface (fresh f + 1),
            Connect key (Some (fresh f + 2)), LogInfo ''Connected to the server.'',
            LogWsEvent (session_update cfg), Send (fresh f + 2) (session_update cfg)] @ post
         \<and> (\<forall>x \<in> set post. \<not> is_session_configure x \<and> \<not> is_opened x)))
   \<and> (\<not> connects a \<longrightarrow>
        (\<forall>x \<in> set (fst (loop_pass cfg f a)). \<not> is_send x \<and> \<not> is_opened x))
   \<and> length (filter is_session_configure (fst (realtime_api cfg as)))
        = length (filter is_opened (fst (realtime_api cfg as)))
   \<and> (\<exists>sess. session_update cfg = SessionUpdate sess
        \<and> modalities sess = [''text'', ''audio'']
        \<and> instructions sess = SESSION_INSTRUCTIONS cfg
        \<and> voice sess = ''shimmer''
        \<and> input_audio_format sess = ''pcm16'' \<and> output_audio_format sess = ''pcm16''
        \<and> td_type (turn_detection sess) = ''server_vad''
        \<and> threshold (turn_detection sess) = SILENCE_THRESHOLD cfg
        \<and> prefix_padding_ms (turn_detection sess) = PREFIX_PADDING_MS cfg
        \<and> silence_duration_ms (turn_detection sess) = SILENCE_DURATION_MS cfg
        \<and> tools sess = TOOL_SCHEMAS cfg)"
proof (intro conjI impI)
  assume "connects a"
  from loop_pass_connects [OF this, of cfg f] show
    "\<exists>key post. api_key a = Some key \<and>
         fst (loop_pass cfg f a) =
           [NewMicrophone (fresh f) AsyncMicrophone, NewVisualInterface (fresh f + 1),
            Connect key (Some (fresh f + 2)), LogInfo ''Connected to the server.'',
            LogWsEvent (session_update cfg), Send (fresh f + 2) (session_update cfg)] @ post
         \<and> (\<forall>x \<in> set post. \<not> is_session_configure x \<and> \<not> is_opened x)"
    by (auto simp: filter_empty_conv)
next
  assume "\<not> connects a"
  from loop_pass_not_connects [OF this, of cfg f] show
    "\<forall>x \<in> set (fst (loop_pass cfg f a)). \<not> is_send x \<and> \<not> is_opened x"
    by (auto simp: filter_empty_conv)
next
  show "length (filter is_session_configure (fst (realtime_api cfg as)))
        = length (filter is_opened (fst (realtime_api cfg as)))"
    by (simp add: realtime_api_trace reconnect_loop_count)
next
  show "\<exists>sess. session_update cfg = SessionUpdate sess
        \<and> modalities sess = [''text'', ''audio'']
        \<and> instructions sess = SESSION_INSTRUCTIONS cfg
        \<and> voice sess = ''shimmer''
        \<and> input_audio_format sess = ''pcm16'' \<and> output_audio_format sess = ''pcm16''
        \<and> td_type (turn_detection sess) = ''server_vad''
        \<and> threshold (turn_detection sess) = SILENCE_THRESHOLD cfg
        \<and> prefix_padding_ms (turn_detection sess) = PREFIX_PADDING_MS cfg
        \<and> silence_duration_ms (turn_detection sess) = SILENCE_DURATION_MS cfg
        \<and> tools sess = TOOL_SCHEMAS cfg"
    by (simp add: session_update_def)
qed

theorem session_configure_once_witness:
  "connects (attempt_ok [tick_drain (Some [1, 2, 3]) None, tick_interrupt KeyboardInterrupt])
   \<and> filter is_send (fst (loop_pass example_config new_frame
        (attempt_ok [tick_drain (Some [1, 2, 3]) None, tick_interrupt KeyboardInterrupt]))) =
       [Send 2 (session_update example_config), Send 2 (InputAudioBufferAppend ''AQID'')]
   \<and> \<not> connects ((attempt_ok [])\<lparr>connect_raises := Some (OtherException ''refused'')\<rparr>)
   \<and> filter is_send (fst (loop_pass example_config new_frame
        ((attempt_ok [])\<lparr>connect_raises := Some (OtherException ''refused'')\<rparr>))) = []"
  using
    session_configure_once [of "attempt_ok [tick_drain (Some [1, 2, 3]) None, tick_interrupt KeyboardInterrupt]"
       example_config new_frame "[]"]
    session_configure_once [of "(attempt_ok [])\<lparr>connect_raises := Some (OtherException ''refused'')\<rparr>"
       example_config new_frame "[]"]
  by (simp add: connects_def model_defs attempt_ok_def tick_drain_def tick_interrupt_def enc123)

subsection \<open>The shape of a session's trace\<close>

lemma pacing_step_tail: "list_all (session_tail ws m vi) (fst (pacing_step ws m vi t))"
  by (simp add: pacing_step_def audio_event_def split: option.splits)

lemma pacing_loop_tail: "list_all (session_tail ws m vi) (fst (pacing_loop ev ws m vi ts))"
proof (induction ts)
  case Nil
  show ?case by simp
next
  case (Cons t ts)
  from pacing_step_tail [of ws m vi t] Cons show ?case
    by (cases "pacing_step ws m vi t"; cases "pacing_loop ev ws m vi ts")
       (auto split: option.splits)
qed

lemma inner_finally_tail: "list_all (session_tail ws m vi) (fst (inner_finally ws m vi a))"
proof -
  have "session_tail ws m vi x" if "x \<in> set (fst (inner_finally ws m vi a))" for x
    using inner_finally_member [OF that] by auto
  then show ?thesis by (simp add: list_all_iff)
qed

lemma inner_try_tail: "list_all (session_tail ws m vi) (fst (inner_try ws m vi a))"
  using pacing_loop_tail [of ws m vi False "ticks a"] inner_finally_tail [of ws m vi a]
  by (cases "inner_finally ws m vi a")
     (auto simp: inner_try_def split: prod.splits ctrl.splits)

lemma await_tasks_tail: "list_all (session_tail ws m vi) (fst (await_tasks a))"
  by (auto simp: await_tasks_def split: option.splits)

text \<open>The three shapes of a session's trace.\<close>

lemma session_body_shape:
  "(session_send_raises a \<noteq> None \<and>
      fst (session_body cfg ws m vi a) =
        [LogInfo ''Connected to the server.'', LogWsEvent (session_update cfg),
         Send ws (session_update cfg)])
   \<or> (session_send_raises a = None \<and> start_recording_raises a \<noteq> None \<and>
      fst (session_body cfg ws m vi a) =
        [LogInfo ''Connected to the server.'', LogWsEvent (session_update cfg),
         Send ws (session_update cfg),
         CreateWsTask ws m vi process_ws_messages_start, CreateVisualTask vi,
         LogInfo ''Conversation started. Speak freely, and the assistant will respond.'',
         MicStartRecording m])
   \<or> (session_send_raises a = None \<and> start_recording_raises a = None \<and>
      (\<exists>tail. fst (session_body cfg ws m vi a) =
        [LogInfo ''Connected to the server.'', LogWsEvent (session_update cfg),
         Send ws (session_update cfg),
         CreateWsTask ws m vi process_ws_messages_start, CreateVisualTask vi,
         LogInfo ''Conversation started. Speak freely, and the assistant will respond.'',
         MicStartRecording m] @ tail
        \<and> list_all (session_tail ws m vi) tail))"
  using inner_try_tail [of ws m vi a] await_tasks_tail [of ws m vi a]
  by (cases "session_send_raises a"; cases "start_recording_raises a";
      cases "inner_try ws m vi a"; cases "await_tasks a")
     (auto simp: session_body_def split: ctrl.splits)

lemma session_tail_objects: "session_tail ws m vi x \<Longrightarrow> set (objects x) \<subseteq> {ws, m, vi}"
  by (cases x) (auto split: option.splits)

lemma session_tail_no_create:
  "session_tail ws m vi x \<Longrightarrow>
     \<not> acquires x \<and> (\<forall>ws' m' vi' st. x \<noteq> CreateWsTask ws' m' vi' st)"
  by (cases x) auto

lemma with_websocket_actions:
  "\<forall>x \<in> set (fst (with_websocket cfg ws m vi a)).
     session_tail ws m vi x
     \<or> x \<in> {LogWsEvent (session_update cfg), Send ws (session_update cfg),
            CreateWsTask ws m vi process_ws_messages_start, CreateVisualTask vi,
            MicStartRecording m}"
proof -
  have body: "\<forall>x \<in> set (fst (session_body cfg ws m vi a)).
     session_tail ws m vi x
     \<or> x \<in> {LogWsEvent (session_update cfg), Send ws (session_update cfg),
            CreateWsTask ws m vi process_ws_messages_start, CreateVisualTask vi,
            MicStartRecording m}"
    using session_body_shape [of a cfg ws m vi]
    by (elim disjE conjE exE) (auto simp: list_all_iff)
  then show ?thesis
    by (cases "session_body cfg ws m vi a") (auto simp: with_websocket_def split: ctrl.splits)
qed

lemma with_websocket_member:
  assumes "x \<in> set (fst (with_websocket cfg ws m vi a))"
  shows "session_tail ws m vi x
     \<or> x \<in> {LogWsEvent (session_update cfg), Send ws (session_update cfg),
            CreateWsTask ws m vi process_ws_messages_start, CreateVisualTask vi,
            MicStartRecording m}"
  using with_websocket_actions [of cfg ws m vi a] assms by blast

lemma with_websocket_objects:
  assumes "x \<in> set (fst (with_websocket cfg ws m vi a))"
  shows "set (objects x) \<subseteq> {ws, m, vi}"
  using with_websocket_member [OF assms]
proof
  assume "session_tail ws m vi x"
  then show ?thesis by (rule session_tail_objects)
next
  assume "x \<in> {LogWsEvent (session_update cfg), Send ws (session_update cfg),
            CreateWsTask ws m vi process_ws_messages_start, CreateVisualTask vi,
            MicStartRecording m}"
  then show ?thesis by auto
qed

lemma with_websocket_no_create:
  assumes "x \<in> set (fst (with_websocket cfg ws m vi a))"
  shows "\<not> acquires x \<and> x \<noteq> PygameQuit"
  using with_websocket_member [OF assms]
proof
  assume "session_tail ws m vi x"
  then show ?thesis using session_tail_no_create [of ws m vi x] by auto
next
  assume "x \<in> {LogWsEvent (session_update cfg), Send ws (session_update cfg),
            CreateWsTask ws m vi process_ws_messages_start, CreateVisualTask vi,
            MicStartRecording m}"
  then show ?thesis by auto
qed

text \<open>The four ways in which a pass that opens no connection leaves the \<open>try\<close> block.\<close>

lemma try_block_not_connects_cases:
  assumes "\<not> connects a"
  shows "(\<exists>c. try_block cfg f a =
            ([LogError ''Please set the OPENAI_API_KEY in your .env file.''], f, c))
   \<or> (\<exists>c. try_block cfg f a = ([], f, c))
   \<or> (\<exists>c. try_block cfg f a =
         ([NewMicrophone (fresh f) AsyncMicrophone],
          f\<lparr>mic := Some (fresh f), fresh := fresh f + 1\<rparr>, c))
   \<or> (\<exists>c key. try_block cfg f a =
         ([NewMicrophone (fresh f) AsyncMicrophone, NewVisualInterface (fresh f + 1),
           Connect key None],
          f\<lparr>mic := Some (fresh f), visual_interface := Some (fresh f + 1),
            fresh := fresh f + 2\<rparr>, c))"
  using assms
  by (cases "api_key a"; cases "microphone_raises a"; cases "visual_interface_raises a";
      cases "connect_raises a")
     (simp_all add: connects_def try_block_def)

lemma except_clauses_objects:
  "x \<in> set (fst (except_clauses e a)) \<Longrightarrow> objects x = [] \<and> x \<noteq> PygameQuit"
  by (cases e) (auto simp: except_clauses_def split: if_splits)

lemma objects_Nil_no_create: "objects x = [] \<Longrightarrow> \<not> acquires x"
  by (cases x) (auto split: option.splits)

text \<open>
  A pass is still running when its \<open>try\<close> block is. Otherwise it ends with the \<open>finally\<close>
  block of the frame it leaves, after the log lines of the \<open>except\<close> clauses if an
  exception left the \<open>try\<close> block.
\<close>

lemma loop_pass_cases:
  "(snd (snd (try_block cfg f a)) = Running \<and> loop_pass cfg f a = try_block cfg f a)
   \<or> (snd (snd (try_block cfg f a)) \<noteq> Running
       \<and> (\<exists>h c. fst (loop_pass cfg f a) =
              fst (try_block cfg f a) @ h @ fst (outer_finally (fst (snd (try_block cfg f a))) a)
           \<and> (\<forall>x \<in> set h. objects x = [] \<and> x \<noteq> PygameQuit)
           \<and> c \<noteq> Running
           \<and> snd (snd (loop_pass cfg f a)) =
               after_finally c (snd (outer_finally (fst (snd (try_block cfg f a))) a)))
       \<and> fst (snd (loop_pass cfg f a)) = fst (snd (try_block cfg f a)))"
proof (cases "try_block cfg f a")
  case (fields tb f' c)
  obtain tf r where o: "outer_finally f' a = (tf, r)" by (cases "outer_finally f' a")
  show ?thesis
  proof (cases c)
    case (Raise e)
    obtain th c' where h: "except_clauses e a = (th, c')" by (cases "except_clauses e a")
    with except_clauses_objects [of _ e a]
    have th: "\<forall>x \<in> set th. objects x = [] \<and> x \<noteq> PygameQuit" by simp
    from h except_clauses_not_Running [of e a] have c': "c' \<noteq> Running" by simp
    from fields Raise h o have
      "fst (loop_pass cfg f a) = tb @ th @ tf" "snd (snd (loop_pass cfg f a)) = after_finally c' r"
      "fst (snd (loop_pass cfg f a)) = f'"
      by (simp_all add: loop_pass_def)
    with th c' fields Raise o show ?thesis by auto
  next
    case Running
    with fields show ?thesis by (simp add: loop_pass_def)
  next
    case Fallthrough
    with fields o have
      "fst (loop_pass cfg f a) = tb @ [] @ tf" "snd (snd (loop_pass cfg f a)) = after_finally c r"
      "fst (snd (loop_pass cfg f a)) = f'"
      by (simp_all add: loop_pass_def)
    with fields Fallthrough o show ?thesis by fastforce
  next
    case Break
    with fields o have
      "fst (loop_pass cfg f a) = tb @ [] @ tf" "snd (snd (loop_pass cfg f a)) = after_finally c r"
      "fst (snd (loop_pass cfg f a)) = f'"
      by (simp_all add: loop_pass_def)
    with fields Break o show ?thesis by fastforce
  next
    case Continue
    with fields o have
      "fst (loop_pass cfg f a) = tb @ [] @ tf" "snd (snd (loop_pass cfg f a)) = after_finally c r"
      "fst (snd (loop_pass cfg f a)) = f'"
      by (simp_all add: loop_pass_def)
    with fields Continue o show ?thesis by fastforce
  next
    case Return
    with fields o have
      "fst (loop_pass cfg f a) = tb @ [] @ tf" "snd (snd (loop_pass cfg f a)) = after_finally c r"
      "fst (snd (loop_pass cfg f a)) = f'"
      by (simp_all add: loop_pass_def)
    with fields Return o show ?thesis by fastforce
  qed
qed

lemma loop_pass_Running:
  "snd (snd (loop_pass cfg f a)) = Running \<longleftrightarrow> snd (snd (try_block cfg f a)) = Running"
proof -
  have "Running \<noteq> after_finally c r" if "c \<noteq> Running" for c r
    using that by (cases r) auto
  with loop_pass_cases [of cfg f a] show ?thesis by fastforce
qed

lemma loop_pass_over:
  assumes "snd (snd (loop_pass cfg f a)) \<noteq> Running"
  shows "\<exists>h c. fst (loop_pass cfg f a) =
           fst (try_block cfg f a) @ h @ fst (outer_finally (fst (snd (loop_pass cfg f a))) a)
         \<and> (\<forall>x \<in> set h. objects x = [] \<and> x \<noteq> PygameQuit)
         \<and> c \<noteq> Running
         \<and> snd (snd (loop_pass cfg f a)) =
             after_finally c (snd (outer_finally (fst (snd (loop_pass cfg f a))) a))
         \<and> fst (snd (loop_pass cfg f a)) = fst (snd (try_block cfg f a))
         \<and> snd (snd (try_block cfg f a)) \<noteq> Running"
  using loop_pass_cases [of cfg f a] assms by auto

lemma loop_pass_suffix:
  "\<exists>sfx. fst (loop_pass cfg f a) = fst (try_block cfg f a) @ sfx
     \<and> (\<forall>x \<in> set sfx. objects x = []
          \<or> x \<in> set (fst (outer_finally (fst (snd (try_block cfg f a))) a)))
     \<and> fst (snd (loop_pass cfg f a)) = fst (snd (try_block cfg f a))"
  using loop_pass_cases [of cfg f a]
proof (elim disjE conjE exE)
  assume "loop_pass cfg f a = try_block cfg f a"
  then show ?thesis by simp
next
  fix h c
  assume "fst (loop_pass cfg f a) =
      fst (try_block cfg f a) @ h @ fst (outer_finally (fst (snd (try_block cfg f a))) a)"
    and "\<forall>x \<in> set h. objects x = [] \<and> x \<noteq> PygameQuit"
    and "fst (snd (loop_pass cfg f a)) = fst (snd (try_block cfg f a))"
  then show ?thesis
    by (intro exI [of _ "h @ fst (outer_finally (fst (snd (try_block cfg f a))) a)"]) auto
qed

subsection \<open>Where \<open>set_active(False)\<close> is called\<close>

lemma pacing_step_no_set_active: "VisSetActive vi' b \<notin> set (fst (pacing_step ws m vi t))"
  by (simp add: pacing_step_def audio_event_def split: option.splits)

lemma pacing_loop_no_set_active: "VisSetActive vi' b \<notin> set (fst (pacing_loop ev ws m vi ts))"
proof (induction ts)
  case Nil
  show ?case by simp
next
  case (Cons t ts)
  from pacing_step_no_set_active [of vi' b ws m vi t] Cons show ?case
    by (cases "pacing_step ws m vi t"; cases "pacing_loop ev ws m vi ts")
       (auto split: option.splits)
qed

lemma inner_finally_set_active:
  "VisSetActive vi' b \<in> set (fst (inner_finally ws m vi a)) \<longleftrightarrow>
     vi' = vi \<and> \<not> b \<and> stop_recording_raises a = None \<and> close_raises a = None
     \<and> websocket_close_raises a = None"
  by (cases "stop_recording_raises a"; cases "close_raises a";
      cases "websocket_close_raises a"; cases "set_active_raises a")
     (auto simp: inner_finally_def)

lemma inner_try_set_active:
  "VisSetActive vi' b \<in> set (fst (inner_try ws m vi a)) \<longleftrightarrow>
     vi' = vi \<and> \<not> b \<and> snd (inner_try ws m vi a) \<noteq> Running
     \<and> stop_recording_raises a = None \<and> close_raises a = None
     \<and> websocket_close_raises a = None"
proof -
  obtain tp c where p: "pacing_loop False ws m vi (ticks a) = (tp, c)"
    by (cases "pacing_loop False ws m vi (ticks a)")
  obtain tf r where i: "inner_finally ws m vi a = (tf, r)" by (cases "inner_finally ws m vi a")
  from pacing_loop_no_set_active [of vi' b False ws m vi "ticks a"] p
  have tp: "VisSetActive vi' b \<notin> set tp" by simp
  from inner_finally_set_active [of vi' b ws m vi a] i
  have tf: "VisSetActive vi' b \<in> set tf \<longleftrightarrow>
     vi' = vi \<and> \<not> b \<and> stop_recording_raises a = None \<and> close_raises a = None
     \<and> websocket_close_raises a = None" by simp
  show ?thesis
  proof (cases c)
    case Running
    with p tp show ?thesis by (simp add: inner_try_def)
  next
    case (Raise e)
    with p i tp tf show ?thesis by (simp add: inner_try_def after_finally_Running)
  qed (use p i tp tf in \<open>simp_all add: inner_try_def after_finally_Running\<close>)
qed

lemma await_tasks_no_set_active:
  "VisSetActive vi' b \<notin> set (fst (await_tasks a)) \<and> snd (await_tasks a) \<noteq> Running"
  by (auto simp: await_tasks_def split: option.splits)

lemma session_body_set_active:
  "VisSetActive vi' b \<in> set (fst (session_body cfg ws m vi a)) \<longleftrightarrow>
     vi' = vi \<and> \<not> b \<and> session_send_raises a = None \<and> start_recording_raises a = None
     \<and> snd (session_body cfg ws m vi a) \<noteq> Running
     \<and> stop_recording_raises a = None \<and> close_raises a = None
     \<and> websocket_close_raises a = None"
proof (cases "session_send_raises a")
  case (Some e)
  then show ?thesis by (simp add: session_body_def)
next
  case None
  show ?thesis
  proof (cases "start_recording_raises a")
    case (Some e)
    with None show ?thesis by (simp add: session_body_def)
  next
    case sr: None
    obtain tp c where t: "inner_try ws m vi a = (tp, c)" by (cases "inner_try ws m vi a")
    obtain tw c' where w: "await_tasks a = (tw, c')" by (cases "await_tasks a")
    from inner_try_set_active [of vi' b ws m vi a] t
    have tp: "VisSetActive vi' b \<in> set tp \<longleftrightarrow>
       vi' = vi \<and> \<not> b \<and> c \<noteq> Running
       \<and> stop_recording_raises a = None \<and> close_raises a = None
       \<and> websocket_close_raises a = None" by simp
    from await_tasks_no_set_active [of vi' b a] w
    have tw: "VisSetActive vi' b \<notin> set tw" "c' \<noteq> Running" by simp_all
    show ?thesis
    proof (cases "c = Fallthrough")
      case True
      with None sr t w tp tw show ?thesis by (simp add: session_body_def)
    next
      case False
      with None sr t tp show ?thesis by (cases c) (simp_all add: session_body_def)
    qed
  qed
qed

lemma with_websocket_Running:
  "snd (with_websocket cfg ws m vi a) = Running \<longleftrightarrow> snd (session_body cfg ws m vi a) = Running"
proof (cases "session_body cfg ws m vi a")
  case (Pair tb c)
  then show ?thesis by (cases c) (simp_all add: with_websocket_def after_finally_Running)
qed

lemma with_websocket_set_active:
  "VisSetActive vi' b \<in> set (fst (with_websocket cfg ws m vi a)) \<longleftrightarrow>
     vi' = vi \<and> \<not> b \<and> session_send_raises a = None \<and> start_recording_raises a = None
     \<and> snd (with_websocket cfg ws m vi a) \<noteq> Running
     \<and> stop_recording_raises a = None \<and> close_raises a = None
     \<and> websocket_close_raises a = None"
proof (cases "session_body cfg ws m vi a")
  case (Pair tb c)
  with session_body_set_active [of vi' b cfg ws m vi a]
  have tb: "VisSetActive vi' b \<in> set tb \<longleftrightarrow>
     vi' = vi \<and> \<not> b \<and> session_send_raises a = None \<and> start_recording_raises a = None
     \<and> c \<noteq> Running
     \<and> stop_recording_raises a = None \<and> close_raises a = None
     \<and> websocket_close_raises a = None" by simp
  from Pair with_websocket_Running [of cfg ws m vi a]
  have r: "snd (with_websocket cfg ws m vi a) = Running \<longleftrightarrow> c = Running" by simp
  have "VisSetActive vi' b \<in> set (fst (with_websocket cfg ws m vi a))
          \<longleftrightarrow> VisSetActive vi' b \<in> set tb"
    using Pair by (cases c) (simp_all add: with_websocket_def)
  with tb r show ?thesis by simp
qed

lemma outer_finally_no_set_active: "VisSetActive vi b \<notin> set (fst (outer_finally f a))"
  using outer_finally_member [of "VisSetActive vi b" f a] by auto

text \<open>
  In a pass of the reconnect loop, \<open>set_active(False)\<close> is called on the visual
  interface of the pass, and exactly when the pass has started recording, has left the
  pacing loop, and the three calls before it in the \<open>finally\<close> block of lines 115 to 120
  have returned.
\<close>

lemma loop_pass_set_active:
  "VisSetActive vi b \<in> set (fst (loop_pass cfg f a)) \<longleftrightarrow>
     vi = fresh f + 1 \<and> \<not> b \<and> starts_recording a
     \<and> snd (snd (loop_pass cfg f a)) \<noteq> Running
     \<and> stop_recording_raises a = None \<and> close_raises a = None
     \<and> websocket_close_raises a = None"
proof -
  from loop_pass_suffix [of cfg f a] obtain sfx where
    t: "fst (loop_pass cfg f a) = fst (try_block cfg f a) @ sfx"
    and sfx: "\<forall>x \<in> set sfx. objects x = []
          \<or> x \<in> set (fst (outer_finally (fst (snd (try_block cfg f a))) a))" by blast
  from sfx outer_finally_no_set_active [of vi b "fst (snd (try_block cfg f a))" a]
  have "VisSetActive vi b \<notin> set sfx" by fastforce
  with t have lp: "VisSetActive vi b \<in> set (fst (loop_pass cfg f a))
     \<longleftrightarrow> VisSetActive vi b \<in> set (fst (try_block cfg f a))" by simp
  show ?thesis
  proof (cases "connects a")
    case False
    from try_block_not_connects_cases [OF False, of cfg f]
    have "VisSetActive vi b \<notin> set (fst (try_block cfg f a))" by (elim disjE exE) simp_all
    with lp False show ?thesis by (simp add: starts_recording_def)
  next
    case True
    let ?W = "with_websocket cfg (fresh f + 2) (fresh f) (fresh f + 1) a"
    from try_block_connects [OF True, of cfg f] obtain key where
      tb: "fst (try_block cfg f a) =
             [NewMicrophone (fresh f) AsyncMicrophone, NewVisualInterface (fresh f + 1),
              Connect key (Some (fresh f + 2))] @ fst ?W"
      and ct: "snd (snd (try_block cfg f a)) =
        (if snd ?W = Fallthrough then Break else snd ?W)"
      by auto
    from ct have "snd (snd (try_block cfg f a)) = Running \<longleftrightarrow> snd ?W = Running" by simp
    then have r: "snd (snd (loop_pass cfg f a)) = Running \<longleftrightarrow> snd ?W = Running"
      by (simp add: loop_pass_Running)
    from tb have "VisSetActive vi b \<in> set (fst (try_block cfg f a))
       \<longleftrightarrow> VisSetActive vi b \<in> set (fst ?W)" by simp
    with lp r True
      with_websocket_set_active [of vi b cfg "fresh f + 2" "fresh f" "fresh f + 1" a]
    show ?thesis by (simp add: starts_recording_def)
  qed
qed

subsection \<open>Release of resources\<close>

lemma released_append: "released xs \<Longrightarrow> released ys \<Longrightarrow> released (xs @ ys)"
  by (induction xs) (auto split: action.splits option.splits)

lemma released_no_create: "\<forall>x \<in> set t. \<not> acquires x \<Longrightarrow> released t"
  by (induction t) (auto split: action.splits option.splits)

lemma outer_finally_no_create: "x \<in> set (fst (outer_finally f a)) \<Longrightarrow> \<not> acquires x"
  using outer_finally_member [of x f a] by auto

text \<open>The \<open>finally\<close> block of lines 143 to 149 when each of its calls returns.\<close>

lemma outer_finally_trace:
  assumes "snd (outer_finally f a) = None"
  shows "fst (outer_finally f a) =
     (case mic f of None \<Rightarrow> [] | Some m \<Rightarrow> [MicStopRecording m, MicClose m])
     @ (case websocket f of None \<Rightarrow> [] | Some ws \<Rightarrow> [WsClose ws])
     @ [PygameQuit]"
proof -
  from assms have "fst (outer_finally f a) = map fst
       ((case mic f of
           None \<Rightarrow> []
         | Some m \<Rightarrow> [(MicStopRecording m, final_stop_recording_raises a),
                      (MicClose m, final_close_raises a)])
        @ (case websocket f of
             None \<Rightarrow> []
           | Some ws \<Rightarrow> [(WsClose ws, final_websocket_close_raises a)])
        @ [(PygameQuit, None)])"
    unfolding outer_finally_def by (rule calls_returns)
  then show ?thesis by (simp split: option.splits)
qed

lemma outer_finally_returns:
  "snd (outer_finally f a) = None \<longleftrightarrow> final_calls_return f a"
  by (cases "mic f"; cases "websocket f"; cases "final_stop_recording_raises a";
      cases "final_close_raises a"; cases "final_websocket_close_raises a")
     (simp_all add: outer_finally_def final_calls_return_def)

lemma outer_finally_raises:
  "snd (outer_finally f a) = Some e \<Longrightarrow>
     Some e \<in> {final_stop_recording_raises a, final_close_raises a,
               final_websocket_close_raises a}"
  by (cases "mic f"; cases "websocket f"; cases "final_stop_recording_raises a";
      cases "final_close_raises a"; cases "final_websocket_close_raises a")
     (simp_all add: outer_finally_def)

lemma outer_finally_quit:
  "PygameQuit \<in> set (fst (outer_finally f a)) \<longleftrightarrow> snd (outer_finally f a) = None"
  by (cases "mic f"; cases "websocket f"; cases "final_stop_recording_raises a";
      cases "final_close_raises a"; cases "final_websocket_close_raises a")
     (simp_all add: outer_finally_def)

lemma try_block_no_quit: "PygameQuit \<notin> set (fst (try_block cfg f a))"
proof (cases "connects a")
  case False
  from try_block_not_connects_cases [OF False, of cfg f] show ?thesis
    by (elim disjE exE) simp_all
next
  case True
  from try_block_connects [OF True, of cfg f] obtain key where
    tb: "fst (try_block cfg f a) =
           [NewMicrophone (fresh f) AsyncMicrophone, NewVisualInterface (fresh f + 1),
            Connect key (Some (fresh f + 2))]
           @ fst (with_websocket cfg (fresh f + 2) (fresh f) (fresh f + 1) a)"
    by auto
  with with_websocket_no_create [of PygameQuit cfg "fresh f + 2" "fresh f" "fresh f + 1" a]
  show ?thesis by auto
qed

text \<open>
  \<open>pygame.quit()\<close> is called in a pass exactly when the pass is over and the calls
  before it in the \<open>finally\<close> block of lines 143 to 149 have returned.
\<close>

lemma loop_pass_quit:
  "PygameQuit \<in> set (fst (loop_pass cfg f a)) \<longleftrightarrow>
     snd (snd (loop_pass cfg f a)) \<noteq> Running
     \<and> final_calls_return (fst (snd (loop_pass cfg f a))) a"
proof (cases "snd (snd (loop_pass cfg f a)) = Running")
  case True
  then have "snd (snd (try_block cfg f a)) = Running" by (simp add: loop_pass_Running)
  with loop_pass_cases [of cfg f a] have "fst (loop_pass cfg f a) = fst (try_block cfg f a)"
    by auto
  with True try_block_no_quit [of cfg f a] show ?thesis by simp
next
  case False
  from loop_pass_over [OF False] obtain h where
    t: "fst (loop_pass cfg f a) =
           fst (try_block cfg f a) @ h @ fst (outer_finally (fst (snd (loop_pass cfg f a))) a)"
    and h: "\<forall>x \<in> set h. objects x = [] \<and> x \<noteq> PygameQuit" by blast
  from h have "PygameQuit \<notin> set h" by auto
  with t try_block_no_quit [of cfg f a]
  have "PygameQuit \<in> set (fst (loop_pass cfg f a)) \<longleftrightarrow>
      PygameQuit \<in> set (fst (outer_finally (fst (snd (loop_pass cfg f a))) a))" by simp
  with False show ?thesis by (simp add: outer_finally_quit outer_finally_returns)
qed

text \<open>When a call of that \<open>finally\<close> block raises, its exception ends the pass.\<close>

lemma loop_pass_finally_raises:
  assumes "snd (snd (loop_pass cfg f a)) \<noteq> Running"
    and "\<not> final_calls_return (fst (snd (loop_pass cfg f a))) a"
  shows "\<exists>e. snd (snd (loop_pass cfg f a)) = Raise e
     \<and> Some e \<in> {final_stop_recording_raises a, final_close_raises a,
                  final_websocket_close_raises a}"
proof -
  from loop_pass_over [OF assms(1)] obtain c where
    c: "snd (snd (loop_pass cfg f a)) =
             after_finally c (snd (outer_finally (fst (snd (loop_pass cfg f a))) a))" by blast
  from assms(2) obtain e where
    e: "snd (outer_finally (fst (snd (loop_pass cfg f a))) a) = Some e"
    by (cases "snd (outer_finally (fst (snd (loop_pass cfg f a))) a)")
       (simp_all add: outer_finally_returns)
  from outer_finally_raises [OF e] c e show ?thesis by simp
qed

lemma try_block_not_connects_released:
  assumes "\<not> connects a" and "snd (outer_finally (fst (snd (try_block cfg f a))) a) = None"
  shows "released (fst (try_block cfg f a) @ h
             @ fst (outer_finally (fst (snd (try_block cfg f a))) a))
         \<longleftrightarrow> released (h @ fst (outer_finally (fst (snd (try_block cfg f a))) a))"
  using try_block_not_connects_cases [OF assms(1), of cfg f] outer_finally_trace [OF assms(2)]
  by (elim disjE exE) simp_all

lemma loop_pass_released:
  assumes "snd (snd (loop_pass cfg f a)) \<noteq> Running"
    and "final_calls_return (fst (snd (loop_pass cfg f a))) a"
  shows "released (fst (loop_pass cfg f a)) \<and> fst (loop_pass cfg f a) \<noteq> []
     \<and> last (fst (loop_pass cfg f a)) = PygameQuit"
proof -
  from loop_pass_over [OF assms(1)] obtain h where
    t: "fst (loop_pass cfg f a) =
           fst (try_block cfg f a) @ h @ fst (outer_finally (fst (snd (loop_pass cfg f a))) a)"
    and h: "\<forall>x \<in> set h. objects x = [] \<and> x \<noteq> PygameQuit"
    and f': "fst (snd (loop_pass cfg f a)) = fst (snd (try_block cfg f a))" by blast
  let ?f' = "fst (snd (try_block cfg f a))"
  from assms(2) f' have ret: "snd (outer_finally ?f' a) = None"
    by (simp add: outer_finally_returns)
  note out = outer_finally_trace [OF ret]
  from out have last: "fst (outer_finally ?f' a) \<noteq> []"
    "last (fst (outer_finally ?f' a)) = PygameQuit" by simp_all
  have tail: "released (h @ fst (outer_finally ?f' a))"
    using h objects_Nil_no_create outer_finally_no_create [of _ ?f' a]
    by (intro released_no_create) auto
  have "released (fst (loop_pass cfg f a))"
  proof (cases "connects a")
    case False
    with tail t f' ret show ?thesis by (simp add: try_block_not_connects_released)
  next
    case True
    let ?W = "with_websocket cfg (fresh f + 2) (fresh f) (fresh f + 1) a"
    from try_block_connects [OF True, of cfg f] obtain key where
      tb: "fst (try_block cfg f a) =
             [NewMicrophone (fresh f) AsyncMicrophone, NewVisualInterface (fresh f + 1),
              Connect key (Some (fresh f + 2))] @ fst ?W"
      and fr: "mic ?f' = Some (fresh f)" "websocket ?f' = Some (fresh f + 2)"
      by auto
    have "released (fst ?W @ h @ fst (outer_finally ?f' a))"
      using h objects_Nil_no_create outer_finally_no_create [of _ ?f' a]
        with_websocket_no_create [of _ cfg "fresh f + 2" "fresh f" "fresh f + 1" a]
      by (intro released_no_create) auto
    moreover from fr out have "MicStopRecording (fresh f) \<in> set (fst (outer_finally ?f' a))"
      "MicClose (fresh f) \<in> set (fst (outer_finally ?f' a))"
      "WsClose (fresh f + 2) \<in> set (fst (outer_finally ?f' a))"
      by simp_all
    ultimately show ?thesis using t f' tb by simp
  qed
  with t f' last show ?thesis by simp
qed

text \<open>A pass whose last \<open>finally\<close> block returns ends with the calls of that block.\<close>

lemma loop_pass_ends:
  assumes "snd (snd (loop_pass cfg f a)) \<noteq> Running"
    and "final_calls_return (fst (snd (loop_pass cfg f a))) a"
  shows "\<exists>pre. fst (loop_pass cfg f a) =
     pre
     @ (case mic (fst (snd (loop_pass cfg f a))) of
          None \<Rightarrow> [] | Some m \<Rightarrow> [MicStopRecording m, MicClose m])
     @ (case websocket (fst (snd (loop_pass cfg f a))) of
          None \<Rightarrow> [] | Some ws \<Rightarrow> [WsClose ws])
     @ [PygameQuit]"
proof -
  from loop_pass_over [OF assms(1)] obtain h where
    t: "fst (loop_pass cfg f a) =
           fst (try_block cfg f a) @ h @ fst (outer_finally (fst (snd (loop_pass cfg f a))) a)"
    by blast
  from assms(2) have "snd (outer_finally (fst (snd (loop_pass cfg f a))) a) = None"
    by (simp add: outer_finally_returns)
  from t outer_finally_trace [OF this] show ?thesis
    by (intro exI [of _ "fst (try_block cfg f a) @ h"]) simp
qed

lemma reconnect_loop_released:
  assumes "\<forall>a \<in> set as. final_stop_recording_raises a = None \<and> final_close_raises a = None
             \<and> final_websocket_close_raises a = None"
    and "snd (reconnect_loop cfg f as) \<noteq> Running"
  shows "released (fst (reconnect_loop cfg f as))
     \<and> fst (reconnect_loop cfg f as) \<noteq> []
     \<and> last (fst (reconnect_loop cfg f as)) = PygameQuit"
  using assms
proof (induction as arbitrary: f)
  case Nil
  then show ?case by simp
next
  case (Cons a as)
  obtain t f' c where lp: "loop_pass cfg f a = (t, f', c)" by (cases "loop_pass cfg f a")
  from Cons.prems(1) have ret: "final_calls_return f' a" by (simp add: final_calls_return_def)
  from Cons.prems(1) have rest: "\<forall>a \<in> set as. final_stop_recording_raises a = None
     \<and> final_close_raises a = None \<and> final_websocket_close_raises a = None" by simp
  show ?case
  proof (cases "c = Continue")
    case True
    obtain t' c' where rl: "reconnect_loop cfg f' as = (t', c')" by (cases "reconnect_loop cfg f' as")
    with Cons.prems(2) lp True have "c' \<noteq> Running" by simp
    with Cons.IH [OF rest, of f'] rl have "released t'" "t' \<noteq> []" "last t' = PygameQuit"
      by simp_all
    moreover from loop_pass_released [of cfg f a] lp True ret have "released t" by simp
    ultimately show ?thesis using lp rl True by (simp add: released_append)
  next
    case False
    with Cons.prems(2) lp have "c \<noteq> Running" by (cases c) simp_all
    with loop_pass_released [of cfg f a] lp False ret show ?thesis
      by (cases c) simp_all
  qed
qed

lemma realtime_api_Running:
  "snd (realtime_api cfg as) = Running \<longleftrightarrow> snd (reconnect_loop cfg new_frame as) = Running"
  by (cases "reconnect_loop cfg new_frame as") (simp add: realtime_api_def split: ctrl.splits)

text \<open>
  Claim C7, as the code has it. The resources are released by the calls of the two
  \<open>finally\<close> blocks, and each block ends at the first of its calls that raises; an
  \<open>await\<close> raises when the task is cancelled while it waits there.

  When \<open>realtime_api\<close> is over, however it ended (a return, or an exception that leaves
  it), and the calls of lines 145 to 148 have returned in its passes, every microphone
  that was created has been stopped and closed afterwards, every connection that was
  opened has been closed afterwards, and \<open>pygame.quit()\<close> is the last action. The same
  holds of each pass of the reconnect loop by itself, which ends with the calls of
  lines 145 to 149, so these are calls that returned.

  In a pass, \<open>pygame.quit()\<close> is called exactly when the pass is over and the calls of
  lines 145 to 148 that come before it have returned; when one of them raises, the calls
  after it are skipped and its exception ends the pass. A pass that opens a connection
  leaves with its own microphone and connection bound, so it makes all three calls.

  In a pass, \<open>set_active(False)\<close> is called exactly on the visual interface that the
  pass created, when the pass has started recording, has left the pacing loop, and the
  calls of lines 117 to 119 have returned. So it is not called when the connect, the send
  of the session update or \<open>start_recording\<close> raises, nor when \<open>mic.stop_recording()\<close>,
  \<open>mic.close()\<close> or the awaited \<open>websocket.close()\<close> of lines 117 to 119 raises.
\<close>

theorem resources_released:
  "((\<forall>a \<in> set as. final_stop_recording_raises a = None \<and> final_close_raises a = None
        \<and> final_websocket_close_raises a = None)
      \<and> snd (realtime_api cfg as) \<noteq> Running \<longrightarrow>
      released (fst (realtime_api cfg as))
      \<and> fst (realtime_api cfg as) \<noteq> []
      \<and> last (fst (realtime_api cfg as)) = PygameQuit)
   \<and> (snd (snd (loop_pass cfg f a)) \<noteq> Running
        \<and> final_calls_return (fst (snd (loop_pass cfg f a))) a \<longrightarrow>
        released (fst (loop_pass cfg f a))
        \<and> (\<exists>pre. fst (loop_pass cfg f a) =
              pre
              @ (case mic (fst (snd (loop_pass cfg f a))) of
                   None \<Rightarrow> [] | Some m \<Rightarrow> [MicStopRecording m, MicClose m])
              @ (case websocket (fst (snd (loop_pass cfg f a))) of
                   None \<Rightarrow> [] | Some ws \<Rightarrow> [WsClose ws])
              @ [PygameQuit]))
   \<and> (PygameQuit \<in> set (fst (loop_pass cfg f a)) \<longleftrightarrow>
        snd (snd (loop_pass cfg f a)) \<noteq> Running
        \<and> final_calls_return (fst (snd (loop_pass cfg f a))) a)
   \<and> (snd (snd (loop_pass cfg f a)) \<noteq> Running
        \<and> \<not> final_calls_return (fst (snd (loop_pass cfg f a))) a \<longrightarrow>
        (\<exists>e. snd (snd (loop_pass cfg f a)) = Raise e
           \<and> Some e \<in> {final_stop_recording_raises a, final_close_raises a,
                        final_websocket_close_raises a}))
   \<and> (connects a \<longrightarrow>
        NewVisualInterface (fresh f + 1) \<in> set (fst (loop_pass cfg f a))
        \<and> mic (fst (snd (loop_pass cfg f a))) = Some (fresh f)
        \<and> websocket (fst (snd (loop_pass cfg f a))) = Some (fresh f + 2))
   \<and> (VisSetActive vi b \<in> set (fst (loop_pass cfg f a)) \<longleftrightarrow>
        vi = fresh f + 1 \<and> \<not> b \<and> starts_recording a
        \<and> snd (snd (loop_pass cfg f a)) \<noteq> Running
        \<and> stop_recording_raises a = None \<and> close_raises a = None
        \<and> websocket_close_raises a = None)"
proof (intro conjI impI)
  assume h: "(\<forall>a \<in> set as. final_stop_recording_raises a = None \<and> final_close_raises a = None
        \<and> final_websocket_close_raises a = None)
      \<and> snd (realtime_api cfg as) \<noteq> Running"
  then have "snd (reconnect_loop cfg new_frame as) \<noteq> Running"
    by (simp add: realtime_api_Running)
  with h reconnect_loop_released [of as cfg new_frame]
  show "released (fst (realtime_api cfg as))" "fst (realtime_api cfg as) \<noteq> []"
    "last (fst (realtime_api cfg as)) = PygameQuit"
    by (simp_all add: realtime_api_trace)
next
  assume h: "snd (snd (loop_pass cfg f a)) \<noteq> Running
        \<and> final_calls_return (fst (snd (loop_pass cfg f a))) a"
  with loop_pass_released [of cfg f a]
  show "released (fst (loop_pass cfg f a))" by simp
  from h loop_pass_ends [of cfg f a]
  show "\<exists>pre. fst (loop_pass cfg f a) =
              pre
              @ (case mic (fst (snd (loop_pass cfg f a))) of
                   None \<Rightarrow> [] | Some m \<Rightarrow> [MicStopRecording m, MicClose m])
              @ (case websocket (fst (snd (loop_pass cfg f a))) of
                   None \<Rightarrow> [] | Some ws \<Rightarrow> [WsClose ws])
              @ [PygameQuit]"
    by simp
next
  show "PygameQuit \<in> set (fst (loop_pass cfg f a)) \<longleftrightarrow>
        snd (snd (loop_pass cfg f a)) \<noteq> Running
        \<and> final_calls_return (fst (snd (loop_pass cfg f a))) a"
    by (rule loop_pass_quit)
next
  assume "snd (snd (loop_pass cfg f a)) \<noteq> Running
        \<and> \<not> final_calls_return (fst (snd (loop_pass cfg f a))) a"
  then show "\<exists>e. snd (snd (loop_pass cfg f a)) = Raise e
           \<and> Some e \<in> {final_stop_recording_raises a, final_close_raises a,
                        final_websocket_close_raises a}"
    using loop_pass_finally_raises [of cfg f a] by blast
next
  assume c: "connects a"
  from loop_pass_connects [OF c, of cfg f]
  show "NewVisualInterface (fresh f + 1) \<in> set (fst (loop_pass cfg f a))" by auto
  from try_block_connects [OF c, of cfg f] loop_pass_suffix [of cfg f a]
  show "mic (fst (snd (loop_pass cfg f a))) = Some (fresh f)"
    "websocket (fst (snd (loop_pass cfg f a))) = Some (fresh f + 2)"
    by auto
next
  show "VisSetActive vi b \<in> set (fst (loop_pass cfg f a)) \<longleftrightarrow>
        vi = fresh f + 1 \<and> \<not> b \<and> starts_recording a
        \<and> snd (snd (loop_pass cfg f a)) \<noteq> Running
        \<and> stop_recording_raises a = None \<and> close_raises a = None
        \<and> websocket_close_raises a = None"
    by (rule loop_pass_set_active)
qed

theorem resources_released_witness:
  "final_stop_recording_raises attempt_interrupted = None
   \<and> final_close_raises attempt_interrupted = None
   \<and> final_websocket_close_raises attempt_interrupted = None
   \<and> snd (realtime_api example_config [attempt_interrupted]) \<noteq> Running
   \<and> released (fst (realtime_api example_config [attempt_interrupted]))
   \<and> last (fst (realtime_api example_config [attempt_interrupted])) = PygameQuit
   \<and> starts_recording attempt_interrupted
   \<and> final_calls_return (fst (snd (loop_pass example_config new_frame attempt_interrupted)))
        attempt_interrupted
   \<and> mic (fst (snd (loop_pass example_config new_frame attempt_interrupted))) = Some 0
   \<and> websocket (fst (snd (loop_pass example_config new_frame attempt_interrupted))) = Some 2
   \<and> PygameQuit \<in> set (fst (loop_pass example_config new_frame attempt_interrupted))
   \<and> VisSetActive 1 False \<in> set (fst (loop_pass example_config new_frame attempt_interrupted))
   \<and> snd (snd (loop_pass example_config new_frame attempt_failing_close)) \<noteq> Running
   \<and> \<not> final_calls_return (fst (snd (loop_pass example_config new_frame attempt_failing_close)))
          attempt_failing_close
   \<and> snd (snd (loop_pass example_config new_frame attempt_failing_close)) =
        Raise (OtherException ''stream closed'')
   \<and> PygameQuit \<notin> set (fst (loop_pass example_config new_frame attempt_failing_close))
   \<and> VisSetActive 1 False
        \<in> set (fst (loop_pass example_config new_frame attempt_failing_close))
   \<and> \<not> starts_recording attempt_refused
   \<and> snd (snd (loop_pass example_config new_frame attempt_refused)) \<noteq> Running
   \<and> VisSetActive 1 False \<notin> set (fst (loop_pass example_config new_frame attempt_refused))
   \<and> released (fst (loop_pass example_config new_frame attempt_refused))"
  using
    resources_released [of "[attempt_interrupted]" example_config new_frame
      attempt_interrupted 1 False]
    resources_released [of "[]" example_config new_frame attempt_failing_close 1 False]
    resources_released [of "[]" example_config new_frame attempt_refused 1 False]
  by (simp add: model_defs starts_recording_def connects_def final_calls_return_def
        attempt_interrupted_def attempt_failing_close_def attempt_refused_def
        attempt_ok_def tick_interrupt_def)

text \<open>
  The claim as stated has the capture device closed and the visual feedback deactivated
  on every exit path, a connect failure, a cancellation and an uncaught error included.

  The connect is refused. The handler of line 140 logs the error and the \<open>finally\<close>
  block of lines 143 to 149 stops and closes the microphone and calls \<open>pygame.quit()\<close>;
  \<open>set_active(False)\<close>, which only line 120 calls, is not called on the visual
  interface that line 53 created.

  A session is cancelled while it sleeps in the pacing loop. The \<open>finally\<close> block of
  lines 115 to 120 stops and closes the microphone and awaits \<open>websocket.close()\<close>; the
  task is cancelled again there, so line 120 is skipped. The \<open>finally\<close> block of lines
  143 to 149 awaits \<open>websocket.close()\<close> at line 148, is cancelled there too, and line
  149 is skipped. The program exits with status 0, and neither \<open>set_active(False)\<close>
  nor \<open>pygame.quit()\<close> has been called for the visual interface that the session was
  rendering.

  A session is ended by a keyboard interrupt, and \<open>mic.stop_recording()\<close> raises. At
  line 117 this skips lines 118 to 120; the handler of line 140 logs the error; at line
  145 it raises again and skips lines 146 to 149. The program exits, and the microphone
  that was recording has not been closed.
\<close>

theorem cleanup_cut_short_counterexample:
  "realtime_api example_config [attempt_refused] =
     ([NewMicrophone 0 AsyncMicrophone, NewVisualInterface 1, Connect ''sk-test'' None,
       LogException ''An unexpected error occurred: refused'',
       MicStopRecording 0, MicClose 0, PygameQuit], Return)
   \<and> VisSetActive 1 False \<notin> set (fst (program example_config [attempt_refused]))
   \<and> realtime_api example_config [attempt_cancelled] =
     ([NewMicrophone 0 AsyncMicrophone, NewVisualInterface 1, Connect ''sk-test'' (Some 2),
       LogInfo ''Connected to the server.'', LogWsEvent (session_update example_config),
       Send 2 (session_update example_config),
       CreateWsTask 2 0 1 process_ws_messages_start, CreateVisualTask 1,
       LogInfo ''Conversation started. Speak freely, and the assistant will respond.'',
       MicStartRecording 0, LogInfo ''Recording started. Listening for speech...'',
       Sleep 10,
       ExitEventSet, MicStopRecording 0, MicClose 0, WsClose 2,
       WsClose 2,
       MicStopRecording 0, MicClose 0, WsClose 2], Raise CancelledError)
   \<and> snd (program example_config [attempt_cancelled]) = Some 0
   \<and> VisSetActive 1 False \<notin> set (fst (program example_config [attempt_cancelled]))
   \<and> PygameQuit \<notin> set (fst (program example_config [attempt_cancelled]))
   \<and> realtime_api example_config [attempt_failing_stop] =
     ([NewMicrophone 0 AsyncMicrophone, NewVisualInterface 1, Connect ''sk-test'' (Some 2),
       LogInfo ''Connected to the server.'', LogWsEvent (session_update example_config),
       Send 2 (session_update example_config),
       CreateWsTask 2 0 1 process_ws_messages_start, CreateVisualTask 1,
       LogInfo ''Conversation started. Speak freely, and the assistant will respond.'',
       MicStartRecording 0, LogInfo ''Recording started. Listening for speech...'',
       Sleep 10, LogInfo ''Keyboard interrupt received. Closing the connection.'',
       ExitEventSet, MicStopRecording 0,
       WsClose 2,
       LogException ''An unexpected error occurred: device error'',
       MicStopRecording 0], Raise (OtherException ''device error''))
   \<and> snd (program example_config [attempt_failing_stop]) = Some 0
   \<and> MicClose 0 \<notin> set (fst (program example_config [attempt_failing_stop]))
   \<and> VisSetActive 1 False \<notin> set (fst (program example_config [attempt_failing_stop]))
   \<and> \<not> released (fst (realtime_api example_config [attempt_failing_stop]))"
  by (simp add: model_defs attempt_refused_def attempt_cancelled_def attempt_failing_stop_def
        attempt_ok_def tick_interrupt_def)

subsection \<open>Every session is built from new objects\<close>

lemma append_split:
  "xs @ ys = pre @ c # post \<Longrightarrow>
     (\<exists>p2. xs = pre @ c # p2 \<and> post = p2 @ ys) \<or> (\<exists>p1. pre = xs @ p1 \<and> ys = p1 @ c # post)"
  by (auto simp: append_eq_append_conv2 append_eq_Cons_conv)

lemma split_unique:
  assumes "xs @ c # ys = pre @ c' # post"
    and "\<forall>x \<in> set xs. \<not> P x" and "\<forall>x \<in> set ys. \<not> P x" and "P c'"
  shows "pre = xs \<and> c' = c \<and> post = ys"
  using assms
proof (induction xs arbitrary: pre)
  case Nil
  then show ?case by (cases pre) auto
next
  case (Cons x xs)
  then show ?case by (cases pre) auto
qed

lemma no_split:
  assumes "t = pre @ c' # post" and "\<forall>x \<in> set t. \<not> P x" and "P c'"
  shows False
  using assms by auto

lemma session_tail_not_task: "session_tail ws m vi x \<Longrightarrow> \<not> is_create_task x"
  by (cases x) auto

lemma objects_Nil_not_task: "objects x = [] \<Longrightarrow> \<not> is_create_task x"
  by (cases x) auto

lemma outer_finally_not_task: "x \<in> set (fst (outer_finally f a)) \<Longrightarrow> \<not> is_create_task x"
  using outer_finally_member [of x f a] by auto

lemma try_block_not_connects_no_task:
  assumes "\<not> connects a"
  shows "\<forall>x \<in> set (fst (try_block cfg f a)). \<not> is_create_task x"
  using assms
  by (cases "api_key a") (auto simp: connects_def try_block_def split: option.splits)

text \<open>In the trace of a session, the receive task is created at one place at most.\<close>

lemma with_websocket_task:
  "(\<forall>x \<in> set (fst (with_websocket cfg ws m vi a)). \<not> is_create_task x)
   \<or> (\<exists>rest. fst (with_websocket cfg ws m vi a) =
         [LogInfo ''Connected to the server.'', LogWsEvent (session_update cfg),
          Send ws (session_update cfg)]
         @ CreateWsTask ws m vi process_ws_messages_start # rest
       \<and> (\<forall>x \<in> set rest. \<not> is_create_task x))"
proof -
  have body: "(\<forall>x \<in> set (fst (session_body cfg ws m vi a)). \<not> is_create_task x)
   \<or> (\<exists>rest. fst (session_body cfg ws m vi a) =
         [LogInfo ''Connected to the server.'', LogWsEvent (session_update cfg),
          Send ws (session_update cfg)]
         @ CreateWsTask ws m vi process_ws_messages_start # rest
       \<and> (\<forall>x \<in> set rest. \<not> is_create_task x))"
    using session_body_shape [of a cfg ws m vi] session_tail_not_task [of ws m vi]
    by (elim disjE conjE exE) (auto simp: list_all_iff session_update_def)
  show ?thesis
  proof (cases "session_body cfg ws m vi a")
    case (Pair tb c)
    show ?thesis
    proof (cases "c = Running")
      case True
      with Pair body show ?thesis by (simp add: with_websocket_def)
    next
      case False
      with Pair have w: "fst (with_websocket cfg ws m vi a) = tb @ [WsClose ws]"
        by (cases c) (simp_all add: with_websocket_def)
      from body Pair show ?thesis unfolding w by auto
    qed
  qed
qed

lemma loop_pass_suffix_task:
  "\<exists>sfx. fst (loop_pass cfg f a) = fst (try_block cfg f a) @ sfx
     \<and> (\<forall>x \<in> set sfx. \<not> is_create_task x)"
proof -
  from loop_pass_suffix [of cfg f a] obtain sfx where
    t: "fst (loop_pass cfg f a) = fst (try_block cfg f a) @ sfx"
    and sfx: "\<forall>x \<in> set sfx. objects x = []
          \<or> x \<in> set (fst (outer_finally (fst (snd (try_block cfg f a))) a))" by blast
  from sfx objects_Nil_not_task outer_finally_not_task
  have "\<forall>x \<in> set sfx. \<not> is_create_task x" by blast
  with t show ?thesis by blast
qed

text \<open>Where a pass creates a receive task: after the six actions that open the session.\<close>

lemma loop_pass_task_split:
  assumes "fst (loop_pass cfg f a) = pre @ CreateWsTask ws m vi st # post"
  shows "st = process_ws_messages_start \<and> m = fresh f \<and> vi = fresh f + 1 \<and> ws = fresh f + 2
     \<and> (\<exists>key. pre =
          [NewMicrophone m AsyncMicrophone, NewVisualInterface vi, Connect key (Some ws),
           LogInfo ''Connected to the server.'', LogWsEvent (session_update cfg),
           Send ws (session_update cfg)])"
proof -
  from loop_pass_suffix_task [of cfg f a] obtain sfx where
    t: "fst (loop_pass cfg f a) = fst (try_block cfg f a) @ sfx"
    and sfx: "\<forall>x \<in> set sfx. \<not> is_create_task x" by blast
  show ?thesis
  proof (cases "connects a")
    case False
    from try_block_not_connects_no_task [OF False, of cfg f] sfx t
    have "\<forall>x \<in> set (fst (loop_pass cfg f a)). \<not> is_create_task x" by auto
    with assms show ?thesis by auto
  next
    case True
    let ?W = "with_websocket cfg (fresh f + 2) (fresh f) (fresh f + 1) a"
    from try_block_connects [OF True, of cfg f] obtain key where
      tb: "fst (try_block cfg f a) =
             [NewMicrophone (fresh f) AsyncMicrophone, NewVisualInterface (fresh f + 1),
              Connect key (Some (fresh f + 2))] @ fst ?W"
      by auto
    from with_websocket_task [of cfg "fresh f + 2" "fresh f" "fresh f + 1" a]
    show ?thesis
    proof
      assume "\<forall>x \<in> set (fst ?W). \<not> is_create_task x"
      with sfx t tb have "\<forall>x \<in> set (fst (loop_pass cfg f a)). \<not> is_create_task x" by auto
      with assms show ?thesis by auto
    next
      assume "\<exists>rest. fst ?W =
         [LogInfo ''Connected to the server.'', LogWsEvent (session_update cfg),
          Send (fresh f + 2) (session_update cfg)]
         @ CreateWsTask (fresh f + 2) (fresh f) (fresh f + 1) process_ws_messages_start # rest
       \<and> (\<forall>x \<in> set rest. \<not> is_create_task x)"
      then obtain rest where
        w: "fst ?W =
         [LogInfo ''Connected to the server.'', LogWsEvent (session_update cfg),
          Send (fresh f + 2) (session_update cfg)]
         @ CreateWsTask (fresh f + 2) (fresh f) (fresh f + 1) process_ws_messages_start # rest"
        and rest: "\<forall>x \<in> set rest. \<not> is_create_task x" by blast
      let ?six = "[NewMicrophone (fresh f) AsyncMicrophone, NewVisualInterface (fresh f + 1),
              Connect key (Some (fresh f + 2)),
              LogInfo ''Connected to the server.'', LogWsEvent (session_update cfg),
              Send (fresh f + 2) (session_update cfg)]"
      from t tb w assms have eq:
        "?six @ CreateWsTask (fresh f + 2) (fresh f) (fresh f + 1) process_ws_messages_start
           # (rest @ sfx) = pre @ CreateWsTask ws m vi st # post" by simp
      have "pre = ?six \<and> CreateWsTask ws m vi st =
              CreateWsTask (fresh f + 2) (fresh f) (fresh f + 1) process_ws_messages_start
            \<and> post = rest @ sfx"
        by (rule split_unique [OF eq, of is_create_task])
           (use rest sfx in \<open>auto simp: session_update_def\<close>)
      then show ?thesis by auto
    qed
  qed
qed

lemma frame_ok_update1:
  "frame_ok f \<Longrightarrow> frame_ok (f\<lparr>mic := Some (fresh f), fresh := fresh f + 1\<rparr>)"
  by (simp add: frame_ok_def split: option.splits)

lemma frame_ok_update2:
  "frame_ok f \<Longrightarrow>
     frame_ok (f\<lparr>mic := Some (fresh f), visual_interface := Some (fresh f + 1),
                fresh := fresh f + 2\<rparr>)"
  by (simp add: frame_ok_def split: option.splits)

lemma frame_ok_update3:
  "frame_ok f \<Longrightarrow>
     frame_ok (f\<lparr>mic := Some (fresh f), visual_interface := Some (fresh f + 1),
                websocket := Some (fresh f + 2), fresh := fresh f + 3\<rparr>)"
  by (simp add: frame_ok_def split: option.splits)

lemma try_block_frame_not_connects:
  assumes "frame_ok f" and "\<not> connects a"
  shows "frame_ok (fst (snd (try_block cfg f a)))
     \<and> fresh f \<le> fresh (fst (snd (try_block cfg f a)))
     \<and> (\<forall>x \<in> set (fst (try_block cfg f a)). \<forall>obj \<in> set (objects x).
           obj < fresh (fst (snd (try_block cfg f a))))"
  using try_block_not_connects_cases [OF assms(2), of cfg f]
proof (elim disjE exE)
  fix c assume "try_block cfg f a =
            ([LogError ''Please set the OPENAI_API_KEY in your .env file.''], f, c)"
  with assms(1) show ?thesis by simp
next
  fix c assume "try_block cfg f a = ([], f, c)"
  with assms(1) show ?thesis by simp
next
  fix c assume "try_block cfg f a =
         ([NewMicrophone (fresh f) AsyncMicrophone],
          f\<lparr>mic := Some (fresh f), fresh := fresh f + 1\<rparr>, c)"
  with frame_ok_update1 [OF assms(1)] show ?thesis by simp
next
  fix c key assume "try_block cfg f a =
         ([NewMicrophone (fresh f) AsyncMicrophone, NewVisualInterface (fresh f + 1),
           Connect key None],
          f\<lparr>mic := Some (fresh f), visual_interface := Some (fresh f + 1),
            fresh := fresh f + 2\<rparr>, c)"
  with frame_ok_update2 [OF assms(1)] show ?thesis by simp
qed

lemma try_block_frame_connects:
  assumes "frame_ok f" and "connects a"
  shows "frame_ok (fst (snd (try_block cfg f a)))
     \<and> fresh f \<le> fresh (fst (snd (try_block cfg f a)))
     \<and> (\<forall>x \<in> set (fst (try_block cfg f a)). \<forall>obj \<in> set (objects x).
           obj < fresh (fst (snd (try_block cfg f a))))"
proof -
  let ?W = "with_websocket cfg (fresh f + 2) (fresh f) (fresh f + 1) a"
  from try_block_connects [OF assms(2), of cfg f] obtain key where
    tb: "fst (try_block cfg f a) =
           [NewMicrophone (fresh f) AsyncMicrophone, NewVisualInterface (fresh f + 1),
            Connect key (Some (fresh f + 2))] @ fst ?W"
    and f': "fst (snd (try_block cfg f a)) =
        f\<lparr>mic := Some (fresh f), visual_interface := Some (fresh f + 1),
          websocket := Some (fresh f + 2), fresh := fresh f + 3\<rparr>"
    by auto
  have "\<forall>x \<in> set (fst ?W). \<forall>obj \<in> set (objects x). obj < fresh f + 3"
  proof (intro ballI)
    fix x obj assume "x \<in> set (fst ?W)" "obj \<in> set (objects x)"
    with with_websocket_objects [of x cfg "fresh f + 2" "fresh f" "fresh f + 1" a]
    have "obj \<in> {fresh f + 2, fresh f, fresh f + 1}" by blast
    then show "obj < fresh f + 3" by auto
  qed
  with tb f' frame_ok_update3 [OF assms(1)] show ?thesis by simp
qed

lemma outer_finally_objects:
  "frame_ok f \<Longrightarrow> x \<in> set (fst (outer_finally f a)) \<Longrightarrow> obj \<in> set (objects x) \<Longrightarrow> obj < fresh f"
  using outer_finally_member [of x f a] by (auto simp: frame_ok_def)

lemma loop_pass_frame:
  assumes "frame_ok f"
  shows "frame_ok (fst (snd (loop_pass cfg f a)))
     \<and> fresh f \<le> fresh (fst (snd (loop_pass cfg f a)))
     \<and> (\<forall>x \<in> set (fst (loop_pass cfg f a)). \<forall>obj \<in> set (objects x).
           obj < fresh (fst (snd (loop_pass cfg f a))))"
proof -
  let ?f' = "fst (snd (try_block cfg f a))"
  have tb: "frame_ok ?f' \<and> fresh f \<le> fresh ?f'
     \<and> (\<forall>x \<in> set (fst (try_block cfg f a)). \<forall>obj \<in> set (objects x). obj < fresh ?f')"
    using try_block_frame_not_connects [OF assms, of a cfg]
      try_block_frame_connects [OF assms, of a cfg]
    by (cases "connects a") blast+
  from loop_pass_suffix [of cfg f a] obtain sfx where
    t: "fst (loop_pass cfg f a) = fst (try_block cfg f a) @ sfx"
    and sfx: "\<forall>x \<in> set sfx. objects x = [] \<or> x \<in> set (fst (outer_finally ?f' a))"
    and f': "fst (snd (loop_pass cfg f a)) = ?f'" by blast
  have "\<forall>x \<in> set sfx. \<forall>obj \<in> set (objects x). obj < fresh ?f'"
  proof (intro ballI)
    fix x obj assume x: "x \<in> set sfx" and o: "obj \<in> set (objects x)"
    with sfx have "x \<in> set (fst (outer_finally ?f' a))" by auto
    with tb o show "obj < fresh ?f'" using outer_finally_objects [of ?f' x a obj] by blast
  qed
  with tb t f' show ?thesis by auto
qed

lemma reconnect_loop_fresh:
  assumes "frame_ok f"
    and "fst (reconnect_loop cfg f as) = pre @ CreateWsTask ws m vi st # post"
  shows "st = process_ws_messages_start \<and> fresh f \<le> m \<and> vi = m + 1 \<and> ws = m + 2
     \<and> (\<exists>pre' key. pre = pre' @
          [NewMicrophone m AsyncMicrophone, NewVisualInterface vi, Connect key (Some ws),
           LogInfo ''Connected to the server.'', LogWsEvent (session_update cfg),
           Send ws (session_update cfg)]
        \<and> (\<forall>x \<in> set pre'. \<forall>obj \<in> set (objects x). obj < m))"
  using assms
proof (induction as arbitrary: f pre)
  case Nil
  then show ?case by simp
next
  case (Cons a as)
  obtain t f' c where lp: "loop_pass cfg f a = (t, f', c)" by (cases "loop_pass cfg f a")
  from loop_pass_frame [OF Cons.prems(1), of cfg a] lp
  have f': "frame_ok f'" "fresh f \<le> fresh f'"
    and tobj: "\<forall>x \<in> set t. \<forall>obj \<in> set (objects x). obj < fresh f'" by simp_all
  have here: "st = process_ws_messages_start \<and> fresh f \<le> m \<and> vi = m + 1 \<and> ws = m + 2
     \<and> (\<exists>pre' key. pre = pre' @
          [NewMicrophone m AsyncMicrophone, NewVisualInterface vi, Connect key (Some ws),
           LogInfo ''Connected to the server.'', LogWsEvent (session_update cfg),
           Send ws (session_update cfg)]
        \<and> (\<forall>x \<in> set pre'. \<forall>obj \<in> set (objects x). obj < m))"
    if "t = pre @ CreateWsTask ws m vi st # p2" for p2
  proof -
    from that lp have "fst (loop_pass cfg f a) = pre @ CreateWsTask ws m vi st # p2" by simp
    from loop_pass_task_split [OF this] obtain key where
      "st = process_ws_messages_start" "m = fresh f" "vi = fresh f + 1" "ws = fresh f + 2"
      "pre = [] @ [NewMicrophone m AsyncMicrophone, NewVisualInterface vi, Connect key (Some ws),
           LogInfo ''Connected to the server.'', LogWsEvent (session_update cfg),
           Send ws (session_update cfg)]" by auto
    then show ?thesis by (intro conjI exI [of _ "[]"] exI [of _ key]) simp_all
  qed
  show ?case
  proof (cases "c = Continue")
    case False
    with lp Cons.prems(2) have "t = pre @ CreateWsTask ws m vi st # post" by (cases c) simp_all
    then show ?thesis by (rule here)
  next
    case True
    obtain t' c' where rl: "reconnect_loop cfg f' as = (t', c')" by (cases "reconnect_loop cfg f' as")
    with lp True Cons.prems(2) have "t @ t' = pre @ CreateWsTask ws m vi st # post" by simp
    from append_split [OF this] show ?thesis
    proof
      assume "\<exists>p2. t = pre @ CreateWsTask ws m vi st # p2 \<and> post = p2 @ t'"
      then obtain p2 where "t = pre @ CreateWsTask ws m vi st # p2" by blast
      then show ?thesis by (rule here)
    next
      assume "\<exists>p1. pre = t @ p1 \<and> t' = p1 @ CreateWsTask ws m vi st # post"
      then obtain p1 where p1: "pre = t @ p1" "t' = p1 @ CreateWsTask ws m vi st # post" by blast
      from p1(2) rl have "fst (reconnect_loop cfg f' as) = p1 @ CreateWsTask ws m vi st # post"
        by simp
      from Cons.IH [OF f'(1) this] obtain pre' key where
        ih: "st = process_ws_messages_start" "fresh f' \<le> m" "vi = m + 1" "ws = m + 2"
          "p1 = pre' @
            [NewMicrophone m AsyncMicrophone, NewVisualInterface vi, Connect key (Some ws),
             LogInfo ''Connected to the server.'', LogWsEvent (session_update cfg),
             Send ws (session_update cfg)]"
          "\<forall>x \<in> set pre'. \<forall>obj \<in> set (objects x). obj < m" by blast
      from tobj ih(2) have "\<forall>x \<in> set t. \<forall>obj \<in> set (objects x). obj < m" by fastforce
      with ih(6) have all: "\<forall>x \<in> set (t @ pre'). \<forall>obj \<in> set (objects x). obj < m" by auto
      from p1(1) ih(5) have "pre = (t @ pre') @
            [NewMicrophone m AsyncMicrophone, NewVisualInterface vi, Connect key (Some ws),
             LogInfo ''Connected to the server.'', LogWsEvent (session_update cfg),
             Send ws (session_update cfg)]" by simp
      with all ih(1-4) f'(2) show ?thesis by (intro conjI exI [of _ "t @ pre'"] exI [of _ key]) simp_all
    qed
  qed
qed

lemma frame_ok_new_frame: "frame_ok new_frame"
  by (simp add: frame_ok_def new_frame_def)

text \<open>
  Claim C6. Wherever a run of \<open>realtime_api\<close> creates a receive task, so in every
  session and in particular in each one that follows a reconnect, the task starts with
  the turn state idle and no accumulated call arguments, and it is created for a
  microphone, a visual interface and a connection that the six actions just before it
  created and opened: the microphone new, with an empty capture buffer and not emitting,
  and none of the three objects touched by any earlier action of the run. Every action
  of a session touches these three objects only.
\<close>

theorem reconnect_fresh_session:
  assumes "fst (realtime_api cfg as) = pre @ CreateWsTask ws m vi st # post"
  shows "turn st = Idle \<and> call_arguments st = []
     \<and> (\<exists>pre' key mic_state. pre = pre' @
          [NewMicrophone m mic_state, NewVisualInterface vi, Connect key (Some ws),
           LogInfo ''Connected to the server.'', LogWsEvent (session_update cfg),
           Send ws (session_update cfg)]
        \<and> capture_buffer mic_state = [] \<and> \<not> emitting mic_state
        \<and> (\<forall>x \<in> set pre'. m \<notin> set (objects x) \<and> vi \<notin> set (objects x)
              \<and> ws \<notin> set (objects x)))
     \<and> (\<forall>x \<in> set (fst (with_websocket cfg ws m vi a)). set (objects x) \<subseteq> {ws, m, vi})"
proof -
  from assms have "fst (reconnect_loop cfg new_frame as) = pre @ CreateWsTask ws m vi st # post"
    by (simp add: realtime_api_trace)
  from reconnect_loop_fresh [OF frame_ok_new_frame this] obtain pre' key where
    st: "st = process_ws_messages_start" and ids: "vi = m + 1" "ws = m + 2"
    and pre: "pre = pre' @
          [NewMicrophone m AsyncMicrophone, NewVisualInterface vi, Connect key (Some ws),
           LogInfo ''Connected to the server.'', LogWsEvent (session_update cfg),
           Send ws (session_update cfg)]"
    and old: "\<forall>x \<in> set pre'. \<forall>obj \<in> set (objects x). obj < m" by blast
  from old ids have "\<forall>x \<in> set pre'. m \<notin> set (objects x) \<and> vi \<notin> set (objects x)
              \<and> ws \<notin> set (objects x)" by fastforce
  with pre have "\<exists>pre' key mic_state. pre = pre' @
          [NewMicrophone m mic_state, NewVisualInterface vi, Connect key (Some ws),
           LogInfo ''Connected to the server.'', LogWsEvent (session_update cfg),
           Send ws (session_update cfg)]
        \<and> capture_buffer mic_state = [] \<and> \<not> emitting mic_state
        \<and> (\<forall>x \<in> set pre'. m \<notin> set (objects x) \<and> vi \<notin> set (objects x)
              \<and> ws \<notin> set (objects x))"
    by (intro exI [of _ pre'] exI [of _ key] exI [of _ AsyncMicrophone])
       (simp add: AsyncMicrophone_def)
  moreover from st have "turn st = Idle \<and> call_arguments st = []"
    by (simp add: process_ws_messages_start_def)
  moreover have "\<forall>x \<in> set (fst (with_websocket cfg ws m vi a)). set (objects x) \<subseteq> {ws, m, vi}"
    using with_websocket_objects [of _ cfg ws m vi a] by blast
  ultimately show ?thesis by blast
qed

theorem reconnect_fresh_session_witness:
  "fst (realtime_api example_config
     [(attempt_ok [])\<lparr>session_send_raises := Some (ConnectionClosedError
           ''sent 1011 (internal error) keepalive ping timeout; no close frame received'')\<rparr>,
      attempt_ok [tick_interrupt KeyboardInterrupt]]) =
    [NewMicrophone 0 AsyncMicrophone, NewVisualInterface 1, Connect ''sk-test'' (Some 2),
     LogInfo ''Connected to the server.'', LogWsEvent (session_update example_config),
     Send 2 (session_update example_config), WsClose 2,
     LogWarning ''WebSocket connection lost due to keepalive ping timeout. Reconnecting...'',
     Sleep 1000, MicStopRecording 0, MicClose 0, WsClose 2, PygameQuit,
     NewMicrophone 3 AsyncMicrophone, NewVisualInterface 4, Connect ''sk-test'' (Some 5),
     LogInfo ''Connected to the server.'', LogWsEvent (session_update example_config),
     Send 5 (session_update example_config)]
    @ CreateWsTask 5 3 4 process_ws_messages_start
    # [CreateVisualTask 4,
       LogInfo ''Conversation started. Speak freely, and the assistant will respond.'',
       MicStartRecording 3, LogInfo ''Recording started. Listening for speech...'',
       Sleep 10, LogInfo ''Keyboard interrupt received. Closing the connection.'',
       ExitEventSet, MicStopRecording 3, MicClose 3, WsClose 5, VisSetActive 4 False,
       AwaitWsTask, AwaitVisualTask, WsClose 5,
       MicStopRecording 3, MicClose 3, WsClose 5, PygameQuit]
   \<and> turn process_ws_messages_start = Idle
   \<and> call_arguments process_ws_messages_start = []
   \<and> capture_buffer AsyncMicrophone = [] \<and> \<not> emitting AsyncMicrophone"
proof -
  have run: "fst (realtime_api example_config
     [(attempt_ok [])\<lparr>session_send_raises := Some (ConnectionClosedError
           ''sent 1011 (internal error) keepalive ping timeout; no close frame received'')\<rparr>,
      attempt_ok [tick_interrupt KeyboardInterrupt]]) =
    [NewMicrophone 0 AsyncMicrophone, NewVisualInterface 1, Connect ''sk-test'' (Some 2),
     LogInfo ''Connected to the server.'', LogWsEvent (session_update example_config),
     Send 2 (session_update example_config), WsClose 2,
     LogWarning ''WebSocket connection lost due to keepalive ping timeout. Reconnecting...'',
     Sleep 1000, MicStopRecording 0, MicClose 0, WsClose 2, PygameQuit,
     NewMicrophone 3 AsyncMicrophone, NewVisualInterface 4, Connect ''sk-test'' (Some 5),
     LogInfo ''Connected to the server.'', LogWsEvent (session_update example_config),
     Send 5 (session_update example_config)]
    @ CreateWsTask 5 3 4 process_ws_messages_start
    # [CreateVisualTask 4,
       LogInfo ''Conversation started. Speak freely, and the assistant will respond.'',
       MicStartRecording 3, LogInfo ''Recording started. Listening for speech...'',
       Sleep 10, LogInfo ''Keyboard interrupt received. Closing the connection.'',
       ExitEventSet, MicStopRecording 3, MicClose 3, WsClose 5, VisSetActive 4 False,
       AwaitWsTask, AwaitVisualTask, WsClose 5,
       MicStopRecording 3, MicClose 3, WsClose 5, PygameQuit]"
    by (simp add: model_defs attempt_ok_def tick_interrupt_def keepalive_signature)
  from reconnect_fresh_session [OF run, of "attempt_ok []"] run show ?thesis
    by (simp add: AsyncMicrophone_def)
qed

subsection \<open>The inbound dispatch loop\<close>

lemma dispatch_goes_on:
  "snd (snd (dispatch bridge r ev)) \<longleftrightarrow> (\<forall>msg. ev \<noteq> ErrorEvent True msg)"
  by (cases ev) (auto simp: dispatch_def split: option.splits)

lemma dispatch_loop_all:
  "\<forall>ev \<in> set evs. \<forall>msg. ev \<noteq> ErrorEvent True msg \<Longrightarrow>
     snd (snd (dispatch_loop bridge r evs)) = []"
proof (induction evs arbitrary: r)
  case Nil
  show ?case by simp
next
  case (Cons ev evs)
  obtain acts r' go where d: "dispatch bridge r ev = (acts, r', go)"
    by (cases "dispatch bridge r ev")
  from Cons.prems have "\<forall>msg. ev \<noteq> ErrorEvent True msg" by simp
  with dispatch_goes_on [of bridge r ev] d have go by simp
  moreover from Cons have "snd (snd (dispatch_loop bridge r' evs)) = []" by simp
  ultimately show ?case using d by (cases "dispatch_loop bridge r' evs") simp
qed

text \<open>
  Claim C8. When the arguments of a call are done and the tool bridge fails with a
  \<open>ToolError\<close>, the dispatch of the event invokes the tool, sends a function-call-result
  event carrying the call id and the error's text, and reports that the session goes on;
  the loop then dispatches the events that follow exactly as it would from the state
  after the call. Whatever the bridge returns, a list of events with no error flagged
  fatal is dispatched to its end, and the only event that ends the session is an error
  flagged fatal.
\<close>

theorem tool_error_never_terminates:
  "(map_of (call_arguments r) cid = Some (nm, args) \<and> bridge nm args = Inl tool_error \<longrightarrow>
      dispatch bridge r (FunctionCallArgumentsDone cid) =
        ([Invoke nm args, SendEvent (FunctionCallResult cid tool_error)],
         r\<lparr>call_arguments := filter (\<lambda>entry. fst entry \<noteq> cid) (call_arguments r)\<rparr>, True)
      \<and> fst (dispatch_loop bridge r (FunctionCallArgumentsDone cid # evs)) =
          [Invoke nm args, SendEvent (FunctionCallResult cid tool_error)]
          @ fst (dispatch_loop bridge
               (r\<lparr>call_arguments := filter (\<lambda>entry. fst entry \<noteq> cid) (call_arguments r)\<rparr>) evs)
      \<and> snd (snd (dispatch_loop bridge r (FunctionCallArgumentsDone cid # evs))) =
          snd (snd (dispatch_loop bridge
               (r\<lparr>call_arguments := filter (\<lambda>entry. fst entry \<noteq> cid) (call_arguments r)\<rparr>) evs)))
   \<and> ((\<forall>ev \<in> set evs. \<forall>msg. ev \<noteq> ErrorEvent True msg) \<longrightarrow>
        snd (snd (dispatch_loop bridge r evs)) = [])
   \<and> (snd (snd (dispatch bridge r ev)) \<longleftrightarrow> (\<forall>msg. ev \<noteq> ErrorEvent True msg))"
proof (intro conjI impI)
  assume h: "map_of (call_arguments r) cid = Some (nm, args) \<and> bridge nm args = Inl tool_error"
  let ?r' = "r\<lparr>call_arguments := filter (\<lambda>entry. fst entry \<noteq> cid) (call_arguments r)\<rparr>"
  from h show d: "dispatch bridge r (FunctionCallArgumentsDone cid) =
        ([Invoke nm args, SendEvent (FunctionCallResult cid tool_error)], ?r', True)"
    by (simp add: dispatch_def)
  then show "fst (dispatch_loop bridge r (FunctionCallArgumentsDone cid # evs)) =
          [Invoke nm args, SendEvent (FunctionCallResult cid tool_error)]
          @ fst (dispatch_loop bridge ?r' evs)"
    by (cases "dispatch_loop bridge ?r' evs") simp
  from d show "snd (snd (dispatch_loop bridge r (FunctionCallArgumentsDone cid # evs))) =
          snd (snd (dispatch_loop bridge ?r' evs))"
    by (cases "dispatch_loop bridge ?r' evs") simp
next
  assume "\<forall>ev \<in> set evs. \<forall>msg. ev \<noteq> ErrorEvent True msg"
  then show "snd (snd (dispatch_loop bridge r evs)) = []" by (rule dispatch_loop_all)
next
  show "snd (snd (dispatch bridge r ev)) \<longleftrightarrow> (\<forall>msg. ev \<noteq> ErrorEvent True msg)"
    by (rule dispatch_goes_on)
qed

theorem tool_error_never_terminates_witness:
  "dispatch_loop (\<lambda>nm args. Inl ''tool failed'')
     (process_ws_messages_start\<lparr>call_arguments := [(''call_1'', ''GetCurrentTime'', ''{}'')]\<rparr>)
     [FunctionCallArgumentsDone ''call_1'', TranscriptDelta ''hello'', SpeechStarted] =
     ([Invoke ''GetCurrentTime'' ''{}'', SendEvent (FunctionCallResult ''call_1'' ''tool failed''),
       TranscriptSink ''hello'', MuteOutbound, CancelCurrent],
      \<lparr>turn = UserSpeaking, call_arguments = []\<rparr>, [])"
  using tool_error_never_terminates
    [of "process_ws_messages_start\<lparr>call_arguments := [(''call_1'', ''GetCurrentTime'', ''{}'')]\<rparr>"
        "''call_1''" "''GetCurrentTime''" "''{}''" "\<lambda>nm args. Inl ''tool failed''" "''tool failed''"
        "[TranscriptDelta ''hello'', SpeechStarted]" SpeechStarted]
  by (simp add: dispatch_def process_ws_messages_start_def)

subsection \<open>The audio encoder and decoder\<close>

text \<open>Bytes and sextets: three bytes below 256 are four sextets below 64, and back.\<close>

lemma sextets_bounds:
  fixes x y z :: nat
  assumes "x < 256" "y < 256" "z < 256"
  shows "x div 4 < 64" "x mod 4 * 16 + y div 16 < 64" "y mod 16 * 4 + z div 64 < 64"
    "z mod 64 < 64" "x mod 4 * 16 < 64" "y mod 16 * 4 < 64"
proof -
  from assms have a: "x div 4 < 64" "y div 16 < 16" "z div 64 < 4" by simp_all
  have b: "x mod 4 < 4" "y mod 16 < 16" by simp_all
  show "x div 4 < 64" by (rule a)
  from a(2) b(1) show "x mod 4 * 16 + y div 16 < 64" by linarith
  from a(3) b(2) show "y mod 16 * 4 + z div 64 < 64" by linarith
  show "z mod 64 < 64" by simp
  from b(1) show "x mod 4 * 16 < 64" by linarith
  from b(2) show "y mod 16 * 4 < 64" by linarith
qed

lemma join_first:
  fixes x y :: nat
  assumes "y < 256"
  shows "x div 4 * 4 + (x mod 4 * 16 + y div 16) div 16 = x"
proof -
  from assms have "y div 16 < 16" by simp
  then have "(x mod 4 * 16 + y div 16) div 16 = x mod 4" by simp
  then show ?thesis by simp
qed

lemma join_second:
  fixes x y z :: nat
  assumes "y < 256" "z < 256"
  shows "(x mod 4 * 16 + y div 16) mod 16 * 16 + (y mod 16 * 4 + z div 64) div 4 = y"
proof -
  from assms have a: "y div 16 < 16" "z div 64 < 4" by simp_all
  from a(1) have "(x mod 4 * 16 + y div 16) mod 16 = y div 16" by simp
  moreover from a(2) have "(y mod 16 * 4 + z div 64) div 4 = y mod 16" by simp
  ultimately show ?thesis by simp
qed

lemma join_third:
  fixes y z :: nat
  assumes "z < 256"
  shows "(y mod 16 * 4 + z div 64) mod 4 * 64 + z mod 64 = z"
proof -
  from assms have "z div 64 < 4" by simp
  then have "(y mod 16 * 4 + z div 64) mod 4 = z div 64" by simp
  then show ?thesis by simp
qed

lemma bytes_bounds:
  fixes i j k l :: nat
  assumes "i < 64" "j < 64" "k < 64" "l < 64"
  shows "i * 4 + j div 16 < 256" "j mod 16 * 16 + k div 4 < 256" "k mod 4 * 64 + l < 256"
proof -
  from assms have a: "j div 16 < 4" "k div 4 < 16" by simp_all
  have b: "j mod 16 < 16" "k mod 4 < 4" by simp_all
  from assms(1) a(1) show "i * 4 + j div 16 < 256" by linarith
  from a(2) b(1) show "j mod 16 * 16 + k div 4 < 256" by linarith
  from assms(4) b(2) show "k mod 4 * 64 + l < 256" by linarith
qed

lemma split_first:
  fixes i j :: nat
  assumes "j < 64"
  shows "(i * 4 + j div 16) div 4 = i" "(i * 4 + j div 16) mod 4 = j div 16"
proof -
  from assms have "j div 16 < 4" by simp
  then show "(i * 4 + j div 16) div 4 = i" "(i * 4 + j div 16) mod 4 = j div 16" by simp_all
qed

lemma split_second:
  fixes j k :: nat
  assumes "k < 64"
  shows "(j mod 16 * 16 + k div 4) div 16 = j mod 16" "(j mod 16 * 16 + k div 4) mod 16 = k div 4"
proof -
  from assms have "k div 4 < 16" by simp
  then show "(j mod 16 * 16 + k div 4) div 16 = j mod 16"
    "(j mod 16 * 16 + k div 4) mod 16 = k div 4" by simp_all
qed

lemma split_third:
  fixes k l :: nat
  assumes "l < 64"
  shows "(k mod 4 * 64 + l) div 64 = k mod 4" "(k mod 4 * 64 + l) mod 64 = l"
  using assms by simp_all

lemma sextet_second:
  fixes i j k :: nat
  assumes "j < 64" "k < 64"
  shows "(i * 4 + j div 16) mod 4 * 16 + (j mod 16 * 16 + k div 4) div 16 = j"
  using split_first(2) [OF assms(1), of i] split_second(1) [OF assms(2), of j] by simp

lemma sextet_third:
  fixes j k l :: nat
  assumes "k < 64" "l < 64"
  shows "(j mod 16 * 16 + k div 4) mod 16 * 4 + (k mod 4 * 64 + l) div 64 = k"
  using split_second(2) [OF assms(1), of j] split_third(1) [OF assms(2), of k] by simp

lemma sextet_second_pad:
  fixes i j :: nat
  assumes "j < 64" "j mod 16 = 0"
  shows "(i * 4 + j div 16) mod 4 * 16 = j"
proof -
  from assms(2) have "j div 16 * 16 = j" by presburger
  with split_first(2) [OF assms(1), of i] show ?thesis by simp
qed

lemma sextet_third_pad:
  fixes j k :: nat
  assumes "k < 64" "k mod 4 = 0"
  shows "(j mod 16 * 16 + k div 4) mod 16 * 4 = k"
proof -
  from assms(2) have "k div 4 * 4 = k" by presburger
  with split_second(2) [OF assms(1), of j] show ?thesis by simp
qed

lemma unat_u8_less: "unat (a :: 8 word) < 256"
  using unsigned_less [of a, where ?'a = nat] by simp

lemma unat_word_of_nat_u8: "n < 256 \<Longrightarrow> unat (word_of_nat n :: 8 word) = n"
  by (simp add: unat_of_nat)

lemma index_of_Some: "index_of x xs = Some i \<Longrightarrow> i < length xs \<and> xs ! i = x"
  by (induction xs arbitrary: i) (auto split: if_splits)

lemma index_of_None: "index_of x xs = None \<longleftrightarrow> x \<notin> set xs"
  by (induction xs) auto

lemma index_of_nth: "distinct xs \<Longrightarrow> n < length xs \<Longrightarrow> index_of (xs ! n) xs = Some n"
proof (induction xs arbitrary: n)
  case Nil
  then show ?case by simp
next
  case (Cons x xs)
  then show ?case by (cases n) auto
qed

lemma length_b64_alphabet: "length b64_alphabet = 64"
  by (simp add: b64_alphabet_def)

lemma distinct_b64_alphabet: "distinct b64_alphabet"
  by (simp add: b64_alphabet_def)

lemma pad_not_in_alphabet: "CHR ''='' \<notin> set b64_alphabet"
  by (simp add: b64_alphabet_def)

lemma b64_index_char: "n < 64 \<Longrightarrow> b64_index (b64_char n) = Some n"
  by (simp add: b64_index_def b64_char_def index_of_nth distinct_b64_alphabet length_b64_alphabet)

lemma b64_char_not_pad:
  assumes "n < 64"
  shows "b64_char n \<noteq> CHR ''=''"
proof -
  from assms have "b64_alphabet ! n \<in> set b64_alphabet"
    by (simp add: length_b64_alphabet)
  with pad_not_in_alphabet show ?thesis by (auto simp: b64_char_def)
qed

lemma b64_index_pad: "b64_index (CHR ''='') = None"
  by (simp add: b64_index_def index_of_None pad_not_in_alphabet)

lemma b64_index_Some: "b64_index c = Some i \<Longrightarrow> i < 64 \<and> b64_char i = c"
  using index_of_Some [of c b64_alphabet i]
  by (simp add: b64_index_def b64_char_def length_b64_alphabet)

lemma decode_last_one:
  "b64decode_last (b64_char (unat a div 4)) (b64_char (unat a mod 4 * 16)) (CHR ''='') (CHR ''='')
     = Some [a]"
proof -
  define x where "x = unat a"
  have x: "x < 256" unfolding x_def by (rule unat_u8_less)
  note b = sextets_bounds [OF x x x]
  have "x div 4 * 4 + x mod 4 * 16 div 16 = x" by simp
  moreover have "x mod 4 * 16 mod 16 = 0" by simp
  moreover have "word_of_nat x = a" unfolding x_def by simp
  ultimately show ?thesis
    using b(1) b(5) unfolding x_def [symmetric]
    by (simp add: b64decode_last_def b64_index_char)
qed

lemma decode_last_two:
  "b64decode_last (b64_char (unat a div 4)) (b64_char (unat a mod 4 * 16 + unat b div 16))
     (b64_char (unat b mod 16 * 4)) (CHR ''='') = Some [a, b]"
proof -
  define x y where "x = unat a" and "y = unat b"
  have x: "x < 256" and y: "y < 256" unfolding x_def y_def by (rule unat_u8_less)+
  note b = sextets_bounds [OF x y y]
  have w: "word_of_nat x = a" "word_of_nat y = b" unfolding x_def y_def by simp_all
  have "(x mod 4 * 16 + y div 16) mod 16 * 16 + y mod 16 * 4 div 4 = y"
    using join_second [OF y, of 0 x] by simp
  with join_first [OF y, of x] w b b64_char_not_pad [OF b(6)] show ?thesis
    unfolding x_def [symmetric] y_def [symmetric]
    by (simp add: b64decode_last_def b64_index_char)
qed

lemma decode_three:
  fixes a b c :: "8 word"
  defines "i \<equiv> unat a div 4" and "j \<equiv> unat a mod 4 * 16 + unat b div 16"
    and "k \<equiv> unat b mod 16 * 4 + unat c div 64" and "l \<equiv> unat c mod 64"
  shows "i < 64 \<and> j < 64 \<and> k < 64 \<and> l < 64
     \<and> word_of_nat (i * 4 + j div 16) = a
     \<and> word_of_nat (j mod 16 * 16 + k div 4) = b
     \<and> word_of_nat (k mod 4 * 64 + l) = c"
proof -
  define x y z where "x = unat a" and "y = unat b" and "z = unat c"
  have x: "x < 256" and y: "y < 256" and z: "z < 256"
    unfolding x_def y_def z_def by (rule unat_u8_less)+
  have w: "word_of_nat x = a" "word_of_nat y = b" "word_of_nat z = c"
    unfolding x_def y_def z_def by simp_all
  note b = sextets_bounds [OF x y z]
  from b(1-4) join_first [OF y, of x] join_second [OF y z, of x] join_third [OF z, of y] w
  show ?thesis
    unfolding i_def j_def k_def l_def x_def [symmetric] y_def [symmetric] z_def [symmetric]
    by simp
qed

lemma decode_last_three:
  "b64decode_last (b64_char (unat a div 4)) (b64_char (unat a mod 4 * 16 + unat b div 16))
     (b64_char (unat b mod 16 * 4 + unat c div 64)) (b64_char (unat c mod 64)) = Some [a, b, c]"
  using decode_three [of a b c]
  by (simp add: b64decode_last_def b64_index_char b64_char_not_pad)

lemma b64decode_b64encode: "b64decode (b64encode x) = Some x"
proof (induction x rule: b64encode.induct)
  case 1
  show ?case by simp
next
  case (2 a)
  show ?case by (simp add: decode_last_one)
next
  case (3 a b)
  show ?case by (simp add: decode_last_two)
next
  case (4 a b c rest)
  show ?case
  proof (cases "rest = []")
    case True
    then show ?thesis by (simp add: decode_last_three)
  next
    case False
    then have "b64encode rest \<noteq> []" by (simp add: b64encode_Nil_iff)
    with 4 decode_three [of a b c] show ?thesis by (simp add: b64_index_char)
  qed
qed

text \<open>Three bytes put together from four sextets encode to the four sextets' characters.\<close>

lemma encode_three:
  assumes "b64_index c1 = Some i" "b64_index c2 = Some j" "b64_index c3 = Some k"
    "b64_index c4 = Some l"
  shows "b64encode (word_of_nat (i * 4 + j div 16) # word_of_nat (j mod 16 * 16 + k div 4)
           # word_of_nat (k mod 4 * 64 + l) # bs) = [c1, c2, c3, c4] @ b64encode bs"
proof -
  from assms b64_index_Some have s: "i < 64" "j < 64" "k < 64" "l < 64"
    and c: "b64_char i = c1" "b64_char j = c2" "b64_char k = c3" "b64_char l = c4" by blast+
  note b = bytes_bounds [OF s]
  have u: "unat (word_of_nat (i * 4 + j div 16) :: 8 word) = i * 4 + j div 16"
    "unat (word_of_nat (j mod 16 * 16 + k div 4) :: 8 word) = j mod 16 * 16 + k div 4"
    "unat (word_of_nat (k mod 4 * 64 + l) :: 8 word) = k mod 4 * 64 + l"
    by (rule unat_word_of_nat_u8, rule b)+
  show ?thesis
    unfolding b64encode.simps u
    by (simp only: split_first(1) [OF s(2), of i] sextet_second [OF s(2,3), of i]
      sextet_third [OF s(3,4), of j] split_third(2) [OF s(4), of k] c)
qed

lemma encode_two:
  assumes "b64_index c1 = Some i" "b64_index c2 = Some j" "b64_index c3 = Some k"
    and "k mod 4 = 0"
  shows "b64encode [word_of_nat (i * 4 + j div 16), word_of_nat (j mod 16 * 16 + k div 4)]
           = [c1, c2, c3, CHR ''='']"
proof -
  from assms b64_index_Some have s: "i < 64" "j < 64" "k < 64"
    and c: "b64_char i = c1" "b64_char j = c2" "b64_char k = c3" by blast+
  note b = bytes_bounds [OF s s(3)]
  have u: "unat (word_of_nat (i * 4 + j div 16) :: 8 word) = i * 4 + j div 16"
    "unat (word_of_nat (j mod 16 * 16 + k div 4) :: 8 word) = j mod 16 * 16 + k div 4"
    by (rule unat_word_of_nat_u8, rule b)+
  show ?thesis
    unfolding b64encode.simps u
    by (simp only: split_first(1) [OF s(2), of i] sextet_second [OF s(2,3), of i]
      sextet_third_pad [OF s(3) assms(4), of j] c)
qed

lemma encode_one:
  assumes "b64_index c1 = Some i" "b64_index c2 = Some j" and "j mod 16 = 0"
  shows "b64encode [word_of_nat (i * 4 + j div 16)] = [c1, c2, CHR ''='', CHR ''='']"
proof -
  from assms b64_index_Some have s: "i < 64" "j < 64"
    and c: "b64_char i = c1" "b64_char j = c2" by blast+
  note b = bytes_bounds [OF s s(2) s(2)]
  have u: "unat (word_of_nat (i * 4 + j div 16) :: 8 word) = i * 4 + j div 16"
    by (rule unat_word_of_nat_u8, rule b)
  show ?thesis
    unfolding b64encode.simps u
    by (simp only: split_first(1) [OF s(2), of i] sextet_second_pad [OF s(2) assms(3), of i] c)
qed

lemma encode_decode_last:
  assumes "b64decode_last c1 c2 c3 c4 = Some x"
  shows "b64encode x = [c1, c2, c3, c4]"
proof -
  from assms obtain i j where ij: "b64_index c1 = Some i" "b64_index c2 = Some j"
    by (auto simp: b64decode_last_def split: option.splits)
  show ?thesis
  proof (cases "c3 = CHR ''='' \<and> c4 = CHR ''=''")
    case True
    with assms ij have "j mod 16 = 0" "x = [word_of_nat (i * 4 + j div 16)]"
      by (auto simp: b64decode_last_def split: if_splits)
    with encode_one [OF ij] True show ?thesis by simp
  next
    case False
    with assms ij obtain k where k: "b64_index c3 = Some k"
      by (auto simp: b64decode_last_def split: option.splits)
    show ?thesis
    proof (cases "c4 = CHR ''=''")
      case True
      with assms ij k False have "k mod 4 = 0"
        "x = [word_of_nat (i * 4 + j div 16), word_of_nat (j mod 16 * 16 + k div 4)]"
        by (auto simp: b64decode_last_def split: if_splits)
      with encode_two [OF ij k] True show ?thesis by simp
    next
      case c4: False
      with assms ij k False obtain l where l: "b64_index c4 = Some l"
        and x: "x = [word_of_nat (i * 4 + j div 16), word_of_nat (j mod 16 * 16 + k div 4),
                     word_of_nat (k mod 4 * 64 + l)]"
        by (auto simp: b64decode_last_def split: option.splits)
      from encode_three [OF ij k l, of "[]"] x show ?thesis by simp
    qed
  qed
qed

lemma b64encode_b64decode: "b64decode t = Some x \<Longrightarrow> b64encode x = t"
proof (induction t arbitrary: x rule: b64decode.induct)
  case 1
  then show ?case by simp
next
  case (2 c1 c2 c3 c4 rest)
  show ?case
  proof (cases "rest = []")
    case True
    with "2.prems" encode_decode_last [of c1 c2 c3 c4 x] show ?thesis by simp
  next
    case False
    with "2.prems" obtain i j k l bs where
      idx: "b64_index c1 = Some i" "b64_index c2 = Some j" "b64_index c3 = Some k"
        "b64_index c4 = Some l"
      and bs: "b64decode rest = Some bs"
      and x: "x = word_of_nat (i * 4 + j div 16) # word_of_nat (j mod 16 * 16 + k div 4)
                    # word_of_nat (k mod 4 * 64 + l) # bs"
      by (auto split: option.splits)
    from "2.IH" [OF False refl idx(1) refl idx(2) refl idx(3) idx(4) bs]
    have "b64encode bs = rest" .
    with encode_three [OF idx, of bs] x show ?thesis by simp
  qed
qed simp_all

lemma dec_AQID: "base64_decode_audio ''AQID'' = Some [1, 2, 3]"
  by (simp add: base64_decode_audio_def b64decode_last_def b64_index_def b64_alphabet_def)

lemma dec_pad: "base64_decode_audio ''/w=='' = Some [255]"
  by (simp add: base64_decode_audio_def b64decode_last_def b64_index_def b64_alphabet_def)

text \<open>
  Claim C9. Decoding the encoding of any payload of bytes, of whatever length, gives the
  payload back; and every text the decoder accepts is the encoding of the payload it
  decodes to. So the encoder is a bijection from the payloads onto the texts the decoder
  accepts, with the decoder as its inverse; both are functions of their argument alone.
\<close>

theorem audio_codec_round_trip:
  "base64_decode_audio (base64_encode_audio x) = Some x
   \<and> (base64_decode_audio t = Some y \<longrightarrow> base64_encode_audio y = t)"
  by (simp add: base64_decode_audio_def base64_encode_audio_def
        b64decode_b64encode b64encode_b64decode)

theorem audio_codec_round_trip_witness:
  "base64_decode_audio (base64_encode_audio [1, 2, 3]) = Some [1, 2, 3]
   \<and> base64_decode_audio ''AQID'' = Some [1, 2, 3]
   \<and> base64_encode_audio [1, 2, 3] = ''AQID''
   \<and> base64_decode_audio ''/w=='' = Some [255]
   \<and> base64_encode_audio [255] = ''/w==''"
  using audio_codec_round_trip [of "[1, 2, 3]" "''AQID''" "[1, 2, 3]"]
    audio_codec_round_trip [of "[255]" "''/w==''" "[255]"]
  by (simp add: dec_AQID dec_pad)

end
